theory Spec2Isabelle
  imports
    Complex_Main
    "HOL-Library.Multiset"
    "HOL-Library.Char_ord"
    "HOL-Library.List_Lexorder"
    "HOL-Library.Sublist"
begin

section \<open>String similarity algorithms of recordlinkage/algorithms/string.py\<close>

text \<open>
  The module computes one score per row of two positionally aligned pandas Series of
  strings. A Series with the default index is a list; a missing entry (NaN) is
  \<open>None\<close>. Numbers are exact rationals (reals for the cosine, which takes square
  roots): rounding of binary floating point is not modelled, the special values of
  numpy's division are.
\<close>

subsection \<open>Values and errors\<close>

datatype error =
    ValueError string
  | TypeError
  | ZeroDivisionError
  | AssertionError
  | LibraryError nat

text \<open>
  What one row of a result can hold: a finite number, numpy's \<open>nan\<close> (also the
  missing-value marker), the two infinities of numpy's division, or Python's
  \<open>None\<close>.
\<close>

datatype 'a score = Num 'a | NaN | PosInf | NegInf | PyNone

type_synonym series = "string option list"

definition same_length_msg :: string where
  "same_length_msg = ''Arrays or Series have to be same length.''"

definition isnull :: "'a option \<Rightarrow> bool" where
  "isnull x = (x = None)"

text \<open>\<open>len(x)\<close>: a missing entry is a float, which has no length.\<close>

definition py_len :: "string option \<Rightarrow> error + nat" where
  "py_len x = (case x of None \<Rightarrow> Inl TypeError | Some s \<Rightarrow> Inr (length s))"

text \<open>
  Division of numpy scalars and arrays: never raises; \<open>0/0\<close> is \<open>nan\<close>,
  \<open>x/0\<close> is an infinity (the warnings are filtered at import of the module).
\<close>

definition np_true_divide :: "'a::linordered_field \<Rightarrow> 'a \<Rightarrow> 'a score" where
  "np_true_divide a b =
     (if b = 0 then (if a = 0 then NaN else if 0 < a then PosInf else NegInf)
      else Num (a / b))"

text \<open>\<open>1 - v\<close> on such a value.\<close>

fun one_minus :: "'a::linordered_field score \<Rightarrow> 'a score" where
  "one_minus (Num r) = Num (1 - r)"
| "one_minus NaN = NaN"
| "one_minus PosInf = NegInf"
| "one_minus NegInf = PosInf"
| "one_minus PyNone = PyNone"

text \<open>Division of Python numbers: a zero divisor raises.\<close>

definition py_div :: "rat \<Rightarrow> rat \<Rightarrow> error + rat" where
  "py_div a b = (if b = 0 then Inl ZeroDivisionError else Inr (a / b))"

subsection \<open>pandas: concat along axis 1 and row-wise apply\<close>

text \<open>
  \<open>pandas.concat([s1, s2], axis=1, ignore_index=True)\<close> joins the two Series on
  their index (outer join): with default indexes the shorter column is filled with NaN.
\<close>

fun concat_axis1 :: "'a option list \<Rightarrow> 'a option list \<Rightarrow> ('a option \<times> 'a option) list" where
  "concat_axis1 [] [] = []"
| "concat_axis1 (x # xs) [] = (x, None) # concat_axis1 xs []"
| "concat_axis1 [] (y # ys) = (None, y) # concat_axis1 [] ys"
| "concat_axis1 (x # xs) (y # ys) = (x, y) # concat_axis1 xs ys"

text \<open>
  \<open>conc.apply(f, axis=1)\<close>: the rows in order; the first exception leaves the call.
\<close>

fun apply_rows :: "('r \<Rightarrow> error + 'v) \<Rightarrow> 'r list \<Rightarrow> error + 'v list" where
  "apply_rows f [] = Inr []"
| "apply_rows f (r # rs) =
     (case f r of
        Inl e \<Rightarrow> Inl e
      | Inr v \<Rightarrow> (case apply_rows f rs of Inl e \<Rightarrow> Inl e | Inr vs \<Rightarrow> Inr (v # vs)))"

subsection \<open>Edit-distance scorers\<close>

text \<open>
  The jellyfish functions are parameters: \<open>string \<Rightarrow> string \<Rightarrow> error + 'a\<close>. Called on a
  missing entry (a float) they raise a type error before anything else.
\<close>

definition jellyfish_call ::
  "(string \<Rightarrow> string \<Rightarrow> error + 'a) \<Rightarrow> string option \<Rightarrow> string option \<Rightarrow> error + 'a" where
  "jellyfish_call f x0 x1 =
     (case x0 of
        None \<Rightarrow> Inl TypeError
      | Some a \<Rightarrow> (case x1 of None \<Rightarrow> Inl TypeError | Some b \<Rightarrow> f a b))"

text \<open>The handler shared by the scorers: \<open>except Exception as err: ...\<close>.\<close>

definition except_isnull ::
  "string option \<times> string option \<Rightarrow> error + 'a score \<Rightarrow> error + 'a score" where
  "except_isnull x r =
     (case r of
        Inr v \<Rightarrow> Inr v
      | Inl err \<Rightarrow> if isnull (fst x) \<or> isnull (snd x) then Inr NaN else Inl err)"

definition jaro_apply ::
  "(string \<Rightarrow> string \<Rightarrow> error + rat) \<Rightarrow> string option \<times> string option \<Rightarrow> error + rat score" where
  "jaro_apply jaro_distance x =
     except_isnull x
       (case jellyfish_call jaro_distance (fst x) (snd x) of
          Inl err \<Rightarrow> Inl err
        | Inr r \<Rightarrow> Inr (Num r))"

definition jaro_similarity ::
  "(string \<Rightarrow> string \<Rightarrow> error + rat) \<Rightarrow> series \<Rightarrow> series \<Rightarrow> error + rat score list" where
  "jaro_similarity jaro_distance s1 s2 =
     apply_rows (jaro_apply jaro_distance) (concat_axis1 s1 s2)"

definition jarowinkler_similarity ::
  "(string \<Rightarrow> string \<Rightarrow> error + rat) \<Rightarrow> series \<Rightarrow> series \<Rightarrow> error + rat score list" where
  "jarowinkler_similarity jaro_winkler s1 s2 =
     apply_rows (jaro_apply jaro_winkler) (concat_axis1 s1 s2)"

text \<open>
  \<open>1 - distance(x[0], x[1]) / np.max([len(x[0]), len(x[1])])\<close>: the distance is
  computed first, then the two lengths; the divisor is a numpy integer, so the
  division is numpy's.
\<close>

definition levenshtein_apply ::
  "(string \<Rightarrow> string \<Rightarrow> error + nat) \<Rightarrow> string option \<times> string option \<Rightarrow> error + rat score" where
  "levenshtein_apply distance x =
     except_isnull x
       (case jellyfish_call distance (fst x) (snd x) of
          Inl err \<Rightarrow> Inl err
        | Inr d \<Rightarrow>
            (case py_len (fst x) of
               Inl err \<Rightarrow> Inl err
             | Inr l0 \<Rightarrow>
                 (case py_len (snd x) of
                    Inl err \<Rightarrow> Inl err
                  | Inr l1 \<Rightarrow>
                      Inr (one_minus (np_true_divide (of_nat d) (of_nat (max l0 l1)))))))"

definition levenshtein_similarity ::
  "(string \<Rightarrow> string \<Rightarrow> error + nat) \<Rightarrow> series \<Rightarrow> series \<Rightarrow> error + rat score list" where
  "levenshtein_similarity levenshtein_distance s1 s2 =
     apply_rows (levenshtein_apply levenshtein_distance) (concat_axis1 s1 s2)"

definition damerau_levenshtein_similarity ::
  "(string \<Rightarrow> string \<Rightarrow> error + nat) \<Rightarrow> series \<Rightarrow> series \<Rightarrow> error + rat score list" where
  "damerau_levenshtein_similarity damerau_levenshtein_distance s1 s2 =
     apply_rows (levenshtein_apply damerau_levenshtein_distance) (concat_axis1 s1 s2)"

subsection \<open>n-gram vectors: q-gram and cosine similarity\<close>

text \<open>
  scikit-learn's CountVectorizer is a parameter: \<open>analyze name ngram doc\<close> is the list
  of n-grams the analyzer called \<open>name\<close> (\<open>char_wb\<close> or \<open>char\<close>) extracts from one
  document for the range \<open>ngram\<close>. \<open>fit_transform\<close> collects the n-grams of all
  documents, sorts the distinct ones into the vocabulary, refuses an empty vocabulary,
  and counts, for each document, the occurrences of each vocabulary entry.
\<close>

type_synonym analyzer = "string \<Rightarrow> nat \<times> nat \<Rightarrow> string \<Rightarrow> string list"

definition fillna :: "series \<Rightarrow> string list" where
  "fillna s = map (\<lambda>x. case x of None \<Rightarrow> [] | Some d \<Rightarrow> d) s"

definition vocabulary_of :: "string list list \<Rightarrow> string list" where
  "vocabulary_of docs = sorted_list_of_set (set (concat docs))"

definition empty_vocabulary_msg :: string where
  "empty_vocabulary_msg = ''empty vocabulary; perhaps the documents only contain stop words''"

definition fit_transform :: "(string \<Rightarrow> string list) \<Rightarrow> string list \<Rightarrow> error + nat list list" where
  "fit_transform analyze_doc data =
     (let docs = map analyze_doc data;
          vocabulary = vocabulary_of docs
      in if vocabulary = [] then Inl (ValueError empty_vocabulary_msg)
         else Inr (map (\<lambda>d. map (count_list d) vocabulary) docs))"

definition metric_sparse_euclidean :: "nat list list \<Rightarrow> nat list list \<Rightarrow> rat score list" where
  "metric_sparse_euclidean u v =
     map2 (\<lambda>ur vr.
        let match_ngrams = sum_list (map2 min ur vr);
            total_ngrams = max (sum_list ur) (sum_list vr)
        in np_true_divide (of_nat match_ngrams) (of_nat total_ngrams)) u v"

definition qgram_similarity ::
  "analyzer \<Rightarrow> series \<Rightarrow> series \<Rightarrow> bool \<Rightarrow> nat \<times> nat \<Rightarrow> error + rat score list" where
  "qgram_similarity vectorizer s1 s2 include_wb ngram =
     (if length s1 \<noteq> length s2 then Inl (ValueError same_length_msg)
      else if length s1 = 0 then Inr []
      else
        let analyzer = (if include_wb then ''char_wb'' else ''char'');
            data = fillna (s1 @ s2)
        in case fit_transform (vectorizer analyzer ngram) data of
             Inl err \<Rightarrow> Inl err
           | Inr vec_fit \<Rightarrow>
               Inr (metric_sparse_euclidean (take (length s1) vec_fit) (drop (length s1) vec_fit)))"

definition metric_sparse_cosine :: "nat list list \<Rightarrow> nat list list \<Rightarrow> real score list" where
  "metric_sparse_cosine u v =
     map2 (\<lambda>ur vr.
        let a = sqrt (of_nat (sum_list (map2 (*) ur ur)));
            b = sqrt (of_nat (sum_list (map2 (*) vr vr)));
            ab = of_nat (sum_list (map2 (*) vr ur))
        in np_true_divide ab (a * b)) u v"

definition cosine_similarity ::
  "analyzer \<Rightarrow> series \<Rightarrow> series \<Rightarrow> bool \<Rightarrow> nat \<times> nat \<Rightarrow> error + real score list" where
  "cosine_similarity vectorizer s1 s2 include_wb ngram =
     (if length s1 \<noteq> length s2 then Inl (ValueError same_length_msg)
      else if length s1 = 0 then Inr []
      else
        let analyzer = (if include_wb then ''char_wb'' else ''char'');
            data = fillna (s1 @ s2)
        in case fit_transform (vectorizer analyzer ngram) data of
             Inl err \<Rightarrow> Inl err
           | Inr vec_fit \<Rightarrow>
               Inr (metric_sparse_cosine (take (length s1) vec_fit) (drop (length s1) vec_fit)))"

text \<open>
  Modelled from the spec: the n-gram extraction of scikit-learn's \<open>char\<close> analyzer,
  which is not part of the repository. Without word boundaries it yields the plain
  sliding-window character n-grams within the string, for each length of the range.
\<close>

definition windows :: "nat \<Rightarrow> string \<Rightarrow> string list" where
  "windows n doc = map (\<lambda>i. take n (drop i doc)) [0 ..< Suc (length doc) - n]"

definition char_ngrams :: "nat \<times> nat \<Rightarrow> string \<Rightarrow> string list" where
  "char_ngrams ngram doc = concat (map (\<lambda>n. windows n doc) [fst ngram ..< Suc (snd ngram)])"

definition char_vectorizer :: analyzer where
  "char_vectorizer name ngram doc = char_ngrams ngram doc"

subsection \<open>Smith-Waterman local alignment\<close>

text \<open>
  The score matrix \<open>m\<close> and the trace matrix are lists of rows, updated in place by the
  two nested loops of \<open>compute_score\<close>; the trace of a cell is a list of the labels
  \<open>D\<close>, \<open>A\<close>, \<open>L\<close>, as in the source.
\<close>

record sw_state =
  sw_m :: "rat list list"
  sw_trace :: "string list list list"
  sw_highest :: rat

definition set2 :: "'a list list \<Rightarrow> nat \<Rightarrow> nat \<Rightarrow> 'a \<Rightarrow> 'a list list" where
  "set2 m x y v = m[x := (m ! x)[y := v]]"

definition append2 :: "'a list list list \<Rightarrow> nat \<Rightarrow> nat \<Rightarrow> 'a \<Rightarrow> 'a list list list" where
  "append2 t x y v = set2 t x y (t ! x ! y @ [v])"

definition sw_cell ::
  "rat \<Rightarrow> rat \<Rightarrow> rat \<Rightarrow> rat \<Rightarrow> string \<Rightarrow> string \<Rightarrow> nat \<Rightarrow> nat \<Rightarrow> sw_state \<Rightarrow> sw_state" where
  "sw_cell match mismatch gap_start gap_continue str1 str2 x y s =
     (let m = sw_m s; trace = sw_trace s;
          diagonal = (if str1 ! (x - 1) = str2 ! (y - 1)
                      then m ! (x - 1) ! (y - 1) + match
                      else m ! (x - 1) ! (y - 1) + mismatch);
          gap_left = (if ''L'' \<in> set (trace ! (x - 1) ! y)
                      then m ! (x - 1) ! y + gap_continue
                      else m ! (x - 1) ! y + gap_start);
          gap_above = (if ''A'' \<in> set (trace ! x ! (y - 1))
                       then m ! x ! (y - 1) + gap_continue
                       else m ! x ! (y - 1) + gap_start);
          score = max diagonal (max gap_left gap_above);
          trace1 = (if score \<le> 0 then trace
                    else
                      let t1 = (if score = diagonal then append2 trace x y ''D'' else trace);
                          t2 = (if score = gap_above then append2 t1 x y ''A'' else t1)
                      in (if score = gap_left then append2 t2 x y ''L'' else t2));
          score1 = (if score \<le> 0 then 0 else score);
          highest = (if sw_highest s < score1 then score1 else sw_highest s)
      in \<lparr>sw_m = set2 m x y score1, sw_trace = trace1, sw_highest = highest\<rparr>)"

definition sw_init :: "string \<Rightarrow> string \<Rightarrow> sw_state" where
  "sw_init str1 str2 =
     \<lparr>sw_m = replicate (1 + length str1) (replicate (1 + length str2) 0),
      sw_trace = replicate (1 + length str1) (replicate (1 + length str2) []),
      sw_highest = 0\<rparr>"

definition sw_row ::
  "rat \<Rightarrow> rat \<Rightarrow> rat \<Rightarrow> rat \<Rightarrow> string \<Rightarrow> string \<Rightarrow> nat \<Rightarrow> sw_state \<Rightarrow> sw_state" where
  "sw_row match mismatch gap_start gap_continue str1 str2 x s =
     fold (sw_cell match mismatch gap_start gap_continue str1 str2 x) [1 ..< 1 + length str2] s"

definition sw_run :: "rat \<Rightarrow> rat \<Rightarrow> rat \<Rightarrow> rat \<Rightarrow> string \<Rightarrow> string \<Rightarrow> sw_state" where
  "sw_run match mismatch gap_start gap_continue str1 str2 =
     fold (sw_row match mismatch gap_start gap_continue str1 str2) [1 ..< 1 + length str1]
       (sw_init str1 str2)"

definition compute_score :: "rat \<Rightarrow> rat \<Rightarrow> rat \<Rightarrow> rat \<Rightarrow> string \<Rightarrow> string \<Rightarrow> rat" where
  "compute_score match mismatch gap_start gap_continue str1 str2 =
     sw_highest (sw_run match mismatch gap_start gap_continue str1 str2)"

text \<open>
  \<open>normalize\<close> has no branch for another name: the function then returns \<open>None\<close>.
  (The name carries a suffix: \<open>normalize\<close> is a constant of the library.)
\<close>

definition normalize_sw :: "rat \<Rightarrow> string \<Rightarrow> string \<Rightarrow> string \<Rightarrow> rat \<Rightarrow> error + rat score" where
  "normalize_sw match normn str1 str2 score =
     (if normn = ''min''
      then map_sum id Num (py_div score (of_nat (min (length str1) (length str2)) * match))
      else if normn = ''max''
      then map_sum id Num (py_div score (of_nat (max (length str1) (length str2)) * match))
      else if normn = ''mean''
      then map_sum id Num (py_div (2 * score) (of_nat (length str1 + length str2) * match))
      else Inr PyNone)"

text \<open>
  The body of the \<open>try\<close>: \<open>len(str1) == 0 or len(str2) == 0\<close> evaluates \<open>len(str2)\<close>
  only when the first test is false.
\<close>

definition sw_try ::
  "rat \<Rightarrow> rat \<Rightarrow> rat \<Rightarrow> rat \<Rightarrow> string \<Rightarrow> string option \<times> string option \<Rightarrow> error + rat score" where
  "sw_try match mismatch gap_start gap_continue normn t =
     (case fst t of
        None \<Rightarrow> Inl TypeError
      | Some str1 \<Rightarrow>
          if length str1 = 0 then Inr (Num 0)
          else (case snd t of
                  None \<Rightarrow> Inl TypeError
                | Some str2 \<Rightarrow>
                    if length str2 = 0 then Inr (Num 0)
                    else normalize_sw match normn str1 str2
                           (compute_score match mismatch gap_start gap_continue str1 str2)))"

definition sw_apply ::
  "rat \<Rightarrow> rat \<Rightarrow> rat \<Rightarrow> rat \<Rightarrow> string \<Rightarrow> string option \<times> string option \<Rightarrow> error + rat score" where
  "sw_apply match mismatch gap_start gap_continue normn t =
     except_isnull t (sw_try match mismatch gap_start gap_continue normn t)"

definition smith_waterman_similarity ::
  "series \<Rightarrow> series \<Rightarrow> rat \<Rightarrow> rat \<Rightarrow> rat \<Rightarrow> rat \<Rightarrow> string \<Rightarrow> error + rat score list" where
  "smith_waterman_similarity s1 s2 match mismatch gap_start gap_continue normn =
     (if \<not> max mismatch (max gap_start gap_continue) \<le> match then Inl AssertionError
      else if length s1 \<noteq> length s2 then Inl (ValueError same_length_msg)
      else if length s1 = 0 then Inr []
      else apply_rows (sw_apply match mismatch gap_start gap_continue normn) (concat_axis1 s1 s2))"

subsection \<open>Longest common substring similarity\<close>

record lcs_state =
  lcs_m :: "nat list list"
  longest :: nat
  x_longest :: nat
  y_longest :: nat

definition lcs_cell :: "string \<Rightarrow> string \<Rightarrow> nat \<Rightarrow> nat \<Rightarrow> lcs_state \<Rightarrow> lcs_state" where
  "lcs_cell str1 str2 x y s =
     (if str1 ! (x - 1) = str2 ! (y - 1)
      then
        let m1 = set2 (lcs_m s) x y (lcs_m s ! (x - 1) ! (y - 1) + 1)
        in if longest s < m1 ! x ! y
           then \<lparr>lcs_m = m1, longest = m1 ! x ! y, x_longest = x, y_longest = y\<rparr>
           else s\<lparr>lcs_m := m1\<rparr>
      else s\<lparr>lcs_m := set2 (lcs_m s) x y 0\<rparr>)"

definition lcs_init :: "string \<Rightarrow> string \<Rightarrow> lcs_state" where
  "lcs_init str1 str2 =
     \<lparr>lcs_m = replicate (1 + length str1) (replicate (1 + length str2) 0),
      longest = 0, x_longest = 0, y_longest = 0\<rparr>"

definition lcs_row :: "string \<Rightarrow> string \<Rightarrow> nat \<Rightarrow> lcs_state \<Rightarrow> lcs_state" where
  "lcs_row str1 str2 x s = fold (lcs_cell str1 str2 x) [1 ..< 1 + length str2] s"

definition lcs_run :: "string \<Rightarrow> string \<Rightarrow> lcs_state" where
  "lcs_run str1 str2 = fold (lcs_row str1 str2) [1 ..< 1 + length str1] (lcs_init str1 str2)"

text \<open>
  One round. Below \<open>min_len\<close> the new strings are \<open>None\<close>; otherwise the slice
  \<open>[x_longest - longest, x_longest)\<close> is cut out of each string.
\<close>

definition lcs_iteration :: "int \<Rightarrow> string \<times> string \<Rightarrow> (string \<times> string) option \<times> nat" where
  "lcs_iteration min_len x =
     (let str1 = fst x; str2 = snd x
      in if int (min (length str1) (length str2)) < min_len then (None, 0)
         else
           let s = lcs_run str1 str2;
               new_str1 = take (x_longest s - longest s) str1 @ drop (x_longest s) str1;
               new_str2 = take (y_longest s - longest s) str2 @ drop (y_longest s) str2
           in (Some (new_str1, new_str2), longest s))"

text \<open>
  The \<open>while True\<close> loop of one ordering. It need not end, so its value is an option;
  a round on \<open>None\<close> strings would fail in \<open>len\<close>.
\<close>

partial_function (option) lcs_loop ::
  "int \<Rightarrow> (string \<times> string) option \<Rightarrow> nat \<Rightarrow> (error + nat) option" where
  "lcs_loop min_len new_x lcs_acc =
     (case new_x of
        None \<Rightarrow> Some (Inl TypeError)
      | Some p \<Rightarrow>
          if int (snd (lcs_iteration min_len p)) < min_len then Some (Inr lcs_acc)
          else lcs_loop min_len (fst (lcs_iteration min_len p))
                 (lcs_acc + snd (lcs_iteration min_len p)))"

declare lcs_loop.simps [code]

text \<open>
  The warning of the last branch is not modelled: the module filters all warnings when
  it is imported. The divisions are Python's, of integers.
\<close>

definition normalize_lcs :: "string \<Rightarrow> string \<Rightarrow> string \<Rightarrow> nat \<Rightarrow> error + rat" where
  "normalize_lcs normn a b lcs_value =
     (if normn = ''overlap''
      then py_div (of_nat lcs_value) (of_nat (min (length a) (length b)))
      else if normn = ''jaccard''
      then py_div (of_nat lcs_value)
             (of_int (int (length a) + int (length b) - \<bar>int lcs_value\<bar>))
      else if normn = ''dice''
      then py_div (of_nat (lcs_value * 2)) (of_nat (length a + length b))
      else py_div (of_nat (lcs_value * 2)) (of_nat (length a + length b)))"

definition lcs_apply ::
  "string \<Rightarrow> int \<Rightarrow> string option \<times> string option \<Rightarrow> (error + rat score) option" where
  "lcs_apply normn min_len x =
     (case fst x of
        None \<Rightarrow> Some (Inr NaN)
      | Some a \<Rightarrow>
          (case snd x of
             None \<Rightarrow> Some (Inr NaN)
           | Some b \<Rightarrow>
               (case lcs_loop min_len (Some (a, b)) 0 of
                  None \<Rightarrow> None
                | Some (Inl err) \<Rightarrow> Some (Inl err)
                | Some (Inr lcs_acc_1) \<Rightarrow>
                    (case lcs_loop min_len (Some (b, a)) 0 of
                       None \<Rightarrow> None
                     | Some (Inl err) \<Rightarrow> Some (Inl err)
                     | Some (Inr lcs_acc_2) \<Rightarrow>
                         (case normalize_lcs normn a b lcs_acc_1 of
                            Inl err \<Rightarrow> Some (Inl err)
                          | Inr v1 \<Rightarrow>
                              (case normalize_lcs normn a b lcs_acc_2 of
                                 Inl err \<Rightarrow> Some (Inl err)
                               | Inr v2 \<Rightarrow> Some (Inr (Num ((v1 + v2) / 2)))))))))"

text \<open>Row-wise apply of a function that may not return.\<close>

fun apply_rows_opt :: "('r \<Rightarrow> (error + 'v) option) \<Rightarrow> 'r list \<Rightarrow> (error + 'v list) option" where
  "apply_rows_opt f [] = Some (Inr [])"
| "apply_rows_opt f (r # rs) =
     (case f r of
        None \<Rightarrow> None
      | Some (Inl e) \<Rightarrow> Some (Inl e)
      | Some (Inr v) \<Rightarrow>
          (case apply_rows_opt f rs of
             None \<Rightarrow> None
           | Some (Inl e) \<Rightarrow> Some (Inl e)
           | Some (Inr vs) \<Rightarrow> Some (Inr (v # vs))))"

definition longest_common_substring_similarity ::
  "series \<Rightarrow> series \<Rightarrow> string \<Rightarrow> int \<Rightarrow> (error + rat score list) option" where
  "longest_common_substring_similarity s1 s2 normn min_len =
     (if length s1 \<noteq> length s2 then Some (Inl (ValueError same_length_msg))
      else if length s1 = 0 then Some (Inr [])
      else apply_rows_opt (lcs_apply normn min_len) (concat_axis1 s1 s2))"

subsection \<open>Definitions used to state the properties\<close>

text \<open>
  Modelled from the spec: the Levenshtein distance of the jellyfish library, which is
  not part of the repository; the textbook recurrence. It instantiates the distance
  parameter in the examples.
\<close>

fun edit_distance :: "string \<Rightarrow> string \<Rightarrow> nat" where
  "edit_distance [] ys = length ys"
| "edit_distance (x # xs) [] = Suc (length xs)"
| "edit_distance (x # xs) (y # ys) =
     min (Suc (edit_distance xs (y # ys)))
       (min (Suc (edit_distance (x # xs) ys))
            (edit_distance xs ys + (if x = y then 0 else 1)))"

text \<open>
  The formula the specification gives for the q-gram similarity, in its words:
  the sum of \<open>min(countA[g], countB[g])\<close> over the vocabulary divided by the sum of
  \<open>max(countA[g], countB[g])\<close> over the vocabulary. It is compared with
  \<open>metric_sparse_euclidean\<close> below.
\<close>

definition generalized_jaccard :: "string list \<Rightarrow> string list \<Rightarrow> string list \<Rightarrow> rat score" where
  "generalized_jaccard vocab gramsA gramsB =
     np_true_divide
       (of_nat (sum_list (map (\<lambda>g. min (count_list gramsA g) (count_list gramsB g)) vocab)))
       (of_nat (sum_list (map (\<lambda>g. max (count_list gramsA g) (count_list gramsB g)) vocab)))"

subsection \<open>The Smith-Waterman table, cell by cell\<close>

text \<open>
  The three candidates of a cell, read from a state: the diagonal move, and the two gap
  moves, charged \<open>gap_continue\<close> when the trace of the predecessor cell holds the label of
  the same direction and \<open>gap_start\<close> otherwise; the labels the source appends for a
  positive maximum, in its order.
\<close>

text \<open>
  The cells the two loops have written when they stand at \<open>(x, y)\<close>, for rows of
  \<open>n\<close> columns.
\<close>

definition visited :: "nat \<Rightarrow> nat \<Rightarrow> nat \<Rightarrow> nat \<Rightarrow> nat \<Rightarrow> bool" where
  "visited n x y i j = (1 \<le> i \<and> 1 \<le> j \<and> j \<le> n \<and> (i < x \<or> (i = x \<and> j < y)))"

definition sw_diagonal :: "rat \<Rightarrow> rat \<Rightarrow> string \<Rightarrow> string \<Rightarrow> sw_state \<Rightarrow> nat \<Rightarrow> nat \<Rightarrow> rat" where
  "sw_diagonal match mismatch str1 str2 s x y =
     sw_m s ! (x - 1) ! (y - 1) + (if str1 ! (x - 1) = str2 ! (y - 1) then match else mismatch)"

definition sw_gap_left :: "rat \<Rightarrow> rat \<Rightarrow> sw_state \<Rightarrow> nat \<Rightarrow> nat \<Rightarrow> rat" where
  "sw_gap_left gap_start gap_continue s x y =
     sw_m s ! (x - 1) ! y
       + (if ''L'' \<in> set (sw_trace s ! (x - 1) ! y) then gap_continue else gap_start)"

definition sw_gap_above :: "rat \<Rightarrow> rat \<Rightarrow> sw_state \<Rightarrow> nat \<Rightarrow> nat \<Rightarrow> rat" where
  "sw_gap_above gap_start gap_continue s x y =
     sw_m s ! x ! (y - 1)
       + (if ''A'' \<in> set (sw_trace s ! x ! (y - 1)) then gap_continue else gap_start)"

definition sw_best :: "rat \<Rightarrow> rat \<Rightarrow> rat \<Rightarrow> rat \<Rightarrow> string \<Rightarrow> string \<Rightarrow> sw_state \<Rightarrow> nat \<Rightarrow> nat \<Rightarrow> rat" where
  "sw_best match mismatch gap_start gap_continue str1 str2 s x y =
     max (sw_diagonal match mismatch str1 str2 s x y)
       (max (sw_gap_left gap_start gap_continue s x y) (sw_gap_above gap_start gap_continue s x y))"

definition sw_labels :: "rat \<Rightarrow> rat \<Rightarrow> rat \<Rightarrow> rat \<Rightarrow> string \<Rightarrow> string \<Rightarrow> sw_state \<Rightarrow> nat \<Rightarrow> nat \<Rightarrow> string list" where
  "sw_labels match mismatch gap_start gap_continue str1 str2 s x y =
     (let best = sw_best match mismatch gap_start gap_continue str1 str2 s x y
      in if best \<le> 0 then []
         else (if best = sw_diagonal match mismatch str1 str2 s x y then [''D''] else [])
            @ (if best = sw_gap_above gap_start gap_continue s x y then [''A''] else [])
            @ (if best = sw_gap_left gap_start gap_continue s x y then [''L''] else []))"

definition sw_cell_ok :: "rat \<Rightarrow> rat \<Rightarrow> rat \<Rightarrow> rat \<Rightarrow> string \<Rightarrow> string \<Rightarrow> sw_state \<Rightarrow> nat \<Rightarrow> nat \<Rightarrow> bool" where
  "sw_cell_ok match mismatch gap_start gap_continue str1 str2 s x y =
     (sw_m s ! x ! y = max 0 (sw_best match mismatch gap_start gap_continue str1 str2 s x y)
      \<and> sw_trace s ! x ! y = sw_labels match mismatch gap_start gap_continue str1 str2 s x y)"

definition grid_dims :: "nat \<Rightarrow> nat \<Rightarrow> 'a list list \<Rightarrow> bool" where
  "grid_dims k n g = (length g = Suc k \<and> (\<forall>i \<le> k. length (g ! i) = Suc n))"

definition sw_inv :: "rat \<Rightarrow> rat \<Rightarrow> rat \<Rightarrow> rat \<Rightarrow> string \<Rightarrow> string \<Rightarrow> nat \<Rightarrow> nat \<Rightarrow> sw_state \<Rightarrow> bool" where
  "sw_inv match mismatch gap_start gap_continue str1 str2 x y s =
     (grid_dims (length str1) (length str2) (sw_m s)
      \<and> grid_dims (length str1) (length str2) (sw_trace s)
      \<and> (\<forall>i j. i \<le> length str1 \<longrightarrow> j \<le> length str2 \<longrightarrow>
            (if visited (length str2) x y i j
             then sw_cell_ok match mismatch gap_start gap_continue str1 str2 s i j
                  \<and> sw_m s ! i ! j \<le> sw_highest s
             else sw_m s ! i ! j = 0 \<and> sw_trace s ! i ! j = []))
      \<and> (sw_highest s = 0
          \<or> (\<exists>i j. i \<le> length str1 \<and> visited (length str2) x y i j \<and> sw_highest s = sw_m s ! i ! j)))"

text \<open>
  The reading of the specification: a cell records every candidate that equals the
  score written to the cell.
\<close>

definition sw_records_ties :: "rat \<Rightarrow> rat \<Rightarrow> rat \<Rightarrow> rat \<Rightarrow> string \<Rightarrow> string \<Rightarrow> sw_state \<Rightarrow> nat \<Rightarrow> nat \<Rightarrow> bool" where
  "sw_records_ties match mismatch gap_start gap_continue str1 str2 s x y =
     ((sw_diagonal match mismatch str1 str2 s x y = sw_m s ! x ! y
         \<longrightarrow> ''D'' \<in> set (sw_trace s ! x ! y))
      \<and> (sw_gap_left gap_start gap_continue s x y = sw_m s ! x ! y
         \<longrightarrow> ''L'' \<in> set (sw_trace s ! x ! y))
      \<and> (sw_gap_above gap_start gap_continue s x y = sw_m s ! x ! y
         \<longrightarrow> ''A'' \<in> set (sw_trace s ! x ! y)))"

subsection \<open>The rounds of the longest common substring similarity\<close>

text \<open>
  The recurrence of the matrix of \<open>lcs_iteration\<close> as a function of the cell: the
  length of the run of equal characters that ends at position \<open>i\<close> of the first string
  and position \<open>j\<close> of the second.
\<close>

fun suffix_run :: "string \<Rightarrow> string \<Rightarrow> nat \<Rightarrow> nat \<Rightarrow> nat" where
  "suffix_run a b 0 j = 0"
| "suffix_run a b (Suc i) 0 = 0"
| "suffix_run a b (Suc i) (Suc j) = (if a ! i = b ! j then Suc (suffix_run a b i j) else 0)"

text \<open>The \<open>k\<close> elements of a list that end at position \<open>i\<close>.\<close>

definition seg_end :: "'a list \<Rightarrow> nat \<Rightarrow> nat \<Rightarrow> 'a list" where
  "seg_end a i k = take k (drop (i - k) a)"

text \<open>
  The specification of one round, in its words: the string with the first occurrence of
  a substring spliced out.
\<close>

fun excise_first :: "string \<Rightarrow> string \<Rightarrow> string" where
  "excise_first w [] = []"
| "excise_first w (c # cs) =
     (if take (length w) (c # cs) = w then drop (length w) (c # cs)
      else c # excise_first w cs)"

text \<open>
  The iterative extraction of the specification for one ordering: while the two strings
  have a common contiguous substring of at least \<open>min_len\<close> characters, a longest
  common substring is chosen, its length is added to the total, and its first
  occurrence is cut out of each string.
\<close>

inductive extraction :: "int \<Rightarrow> string \<Rightarrow> string \<Rightarrow> nat \<Rightarrow> bool" for min_len :: int where
  stop: "(\<And>w. sublist w a \<Longrightarrow> sublist w b \<Longrightarrow> int (length w) < min_len) \<Longrightarrow>
         extraction min_len a b 0"
| round: "sublist w a \<Longrightarrow> sublist w b \<Longrightarrow>
          (\<And>v. sublist v a \<Longrightarrow> sublist v b \<Longrightarrow> length v \<le> length w) \<Longrightarrow>
          min_len \<le> int (length w) \<Longrightarrow>
          extraction min_len (excise_first w a) (excise_first w b) t \<Longrightarrow>
          extraction min_len a b (length w + t)"

text \<open>The invariant of the two loops of \<open>lcs_iteration\<close>.\<close>

definition lcs_inv :: "string \<Rightarrow> string \<Rightarrow> nat \<Rightarrow> nat \<Rightarrow> lcs_state \<Rightarrow> bool" where
  "lcs_inv str1 str2 x y s =
     (grid_dims (length str1) (length str2) (lcs_m s)
      \<and> (\<forall>i j. i \<le> length str1 \<longrightarrow> j \<le> length str2 \<longrightarrow>
            lcs_m s ! i ! j = (if visited (length str2) x y i j then suffix_run str1 str2 i j else 0))
      \<and> (\<forall>i j. visited (length str2) x y i j \<longrightarrow> suffix_run str1 str2 i j \<le> longest s)
      \<and> (if longest s = 0 then x_longest s = 0 \<and> y_longest s = 0
          else x_longest s \<le> length str1
               \<and> visited (length str2) x y (x_longest s) (y_longest s)
               \<and> suffix_run str1 str2 (x_longest s) (y_longest s) = longest s
               \<and> (\<forall>i j. visited (length str2) (x_longest s) (y_longest s) i j
                      \<longrightarrow> suffix_run str1 str2 i j < longest s)))"

section \<open>Properties\<close>

subsection \<open>Rows, columns and the primitives\<close>

lemma apply_rows_map:
  "(\<And>r. r \<in> set rs \<Longrightarrow> f r = Inr (g r)) \<Longrightarrow> apply_rows f rs = Inr (map g rs)"
  by (induction rs) simp_all

lemma apply_rows_cong_map:
  "(\<And>r. f (h r) = f r) \<Longrightarrow> apply_rows f (map h rs) = apply_rows f rs"
  by (induction rs) (simp_all cong: sum.case_cong)

lemma concat_axis1_same_length:
  "length xs = length ys \<Longrightarrow>
   concat_axis1 (map Some xs) (map Some ys) = map (\<lambda>(a, b). (Some a, Some b)) (zip xs ys)"
  by (induction xs ys rule: list_induct2) simp_all

lemma concat_axis1_swap: "concat_axis1 ys xs = map prod.swap (concat_axis1 xs ys)"
  by (induction xs ys rule: concat_axis1.induct) simp_all

lemma map2_commute:
  "(\<And>a b. f a b = g b a) \<Longrightarrow> map2 f xs ys = map2 g ys xs"
proof (induction xs arbitrary: ys)
  case Nil
  show ?case by simp
next
  case (Cons x xs)
  then show ?case by (cases ys) simp_all
qed

lemma map2_same: "map2 h (map f V) (map g V) = map (\<lambda>x. h (f x) (g x)) V"
  by (induction V) simp_all

lemma edit_distance_Nil2: "edit_distance xs [] = length xs"
  by (cases xs) simp_all

lemma edit_distance_sym: "edit_distance xs ys = edit_distance ys xs"
proof (induction xs ys rule: edit_distance.induct)
  case (1 ys)
  show ?case by (simp add: edit_distance_Nil2)
next
  case (2 x xs)
  show ?case by simp
next
  case (3 x xs y ys)
  then show ?case by (simp add: min.commute min.left_commute eq_commute)
qed

subsection \<open>Levenshtein and Damerau-Levenshtein similarity\<close>

lemma levenshtein_apply_present:
  "levenshtein_apply (\<lambda>a b. Inr (d a b)) (Some a, Some b) =
     Inr (one_minus (np_true_divide (of_nat (d a b)) (of_nat (max (length a) (length b)))))"
  by (simp add: levenshtein_apply_def jellyfish_call_def py_len_def except_isnull_def)

text \<open>
  C4. For two Series of present strings of the same length and a distance primitive
  \<open>d\<close> that returns for every pair of strings (0 for two empty strings), both
  similarities return, row by row, \<open>1 - d a b / max (len a) (len b)\<close>; for two empty
  strings the division is 0/0 and the row is the missing-value marker; no error is
  raised.
\<close>

theorem levenshtein_similarity_formula:
  assumes "length xs = length ys" and "d [] [] = 0"
  shows "levenshtein_similarity (\<lambda>a b. Inr (d a b)) (map Some xs) (map Some ys)
           = Inr (map2 (\<lambda>a b. if a = [] \<and> b = [] then NaN
                   else Num (1 - of_nat (d a b) / of_nat (max (length a) (length b)))) xs ys)
       \<and> damerau_levenshtein_similarity (\<lambda>a b. Inr (d a b)) (map Some xs) (map Some ys)
           = Inr (map2 (\<lambda>a b. if a = [] \<and> b = [] then NaN
                   else Num (1 - of_nat (d a b) / of_nat (max (length a) (length b)))) xs ys)"
proof -
  let ?g = "\<lambda>a b. if a = [] \<and> b = [] then NaN
                   else Num (1 - of_nat (d a b) / of_nat (max (length a) (length b)))"
  let ?rows = "map (\<lambda>(a, b). (Some a, Some b)) (zip xs ys)"
  have row: "levenshtein_apply (\<lambda>a b. Inr (d a b)) (Some a, Some b) = Inr (?g a b)" for a b
    using assms(2) by (auto simp: levenshtein_apply_present np_true_divide_def max_def)
  have "apply_rows (levenshtein_apply (\<lambda>a b. Inr (d a b))) ?rows
        = Inr (map (\<lambda>r. ?g (the (fst r)) (the (snd r))) ?rows)"
    by (rule apply_rows_map) (auto simp: row)
  also have "map (\<lambda>r. ?g (the (fst r)) (the (snd r))) ?rows = map2 ?g xs ys"
    by (simp add: case_prod_unfold)
  finally show ?thesis
    by (simp add: levenshtein_similarity_def damerau_levenshtein_similarity_def
        concat_axis1_same_length [OF assms(1)])
qed

theorem levenshtein_similarity_formula_witness:
  "length [''flaw'', ''''] = length [''lawn'', ''''] \<and> edit_distance [] [] = 0 \<and>
   levenshtein_similarity (\<lambda>a b. Inr (edit_distance a b))
       [Some ''flaw'', Some ''''] [Some ''lawn'', Some '''']
     = Inr [Num (1 / 2), NaN] \<and>
   damerau_levenshtein_similarity (\<lambda>a b. Inr (edit_distance a b))
       [Some ''flaw'', Some ''''] [Some ''lawn'', Some '''']
     = Inr [Num (1 / 2), NaN]"
proof -
  have d: "edit_distance ''flaw'' ''lawn'' = 2" by code_simp
  show ?thesis
    using levenshtein_similarity_formula [of "[''flaw'', '''']" "[''lawn'', '''']" edit_distance]
    by (simp add: d)
qed

subsection \<open>The q-gram similarity\<close>

lemma fillna_append: "fillna (s1 @ s2) = fillna s1 @ fillna s2"
  by (simp add: fillna_def)

lemma length_fillna: "length (fillna s) = length s"
  by (simp add: fillna_def)

lemma fit_transform_append:
  "fit_transform an (d1 @ d2) =
     (if vocabulary_of (map an d1 @ map an d2) = [] then Inl (ValueError empty_vocabulary_msg)
      else Inr (map (\<lambda>d. map (count_list (an d)) (vocabulary_of (map an d1 @ map an d2))) d1
              @ map (\<lambda>d. map (count_list (an d)) (vocabulary_of (map an d1 @ map an d2))) d2))"
  by (simp add: fit_transform_def Let_def comp_def)

lemma distinct_vocabulary_of: "distinct (vocabulary_of docs)"
  by (simp add: vocabulary_of_def)

lemma vocabulary_of_commute: "vocabulary_of (xs @ ys) = vocabulary_of (ys @ xs)"
  by (simp add: vocabulary_of_def Un_commute)

lemma sum_list_map2_min:
  "distinct V \<Longrightarrow>
   sum_list (map2 min (map f V) (map g V)) = (\<Sum>x \<in> set V. min (f x) (g x :: nat))"
  by (simp only: map2_same sum_list_distinct_conv_sum_set)

lemma sum_list_map_count:
  "distinct V \<Longrightarrow> sum_list (map f V) = (\<Sum>x \<in> set V. (f x :: nat))"
  by (simp add: sum_list_distinct_conv_sum_set)

text \<open>
  Every n-gram of a document is in the vocabulary, so the counts of a row add up to the
  number of n-grams of its document.
\<close>

lemma sum_count_list_length:
  assumes "finite V" and "set d \<subseteq> V"
  shows "(\<Sum>x \<in> V. count_list d x) = length d"
proof -
  have "(\<Sum>x \<in> V. count_list d x) = (\<Sum>x \<in> set d. count_list d x)"
    using assms by (intro sum.mono_neutral_right) (auto simp: count_list_0_iff)
  then show ?thesis by (simp add: sum_count_set)
qed

lemma metric_sparse_euclidean_rows:
  assumes "length d1 = length d2" and "distinct V"
  shows "metric_sparse_euclidean (map (\<lambda>d. map (count_list (an d)) V) d1)
           (map (\<lambda>d. map (count_list (an d)) V) d2)
       = map2 (\<lambda>a b. np_true_divide
                 (of_nat (\<Sum>g \<in> set V. min (count_list (an a) g) (count_list (an b) g)))
                 (of_nat (max (\<Sum>g \<in> set V. count_list (an a) g)
                              (\<Sum>g \<in> set V. count_list (an b) g)))) d1 d2"
proof -
  have "map2 h (map r d1) (map r d2) = map2 (\<lambda>a b. h (r a) (r b)) d1 d2"
    for h :: "nat list \<Rightarrow> nat list \<Rightarrow> rat score" and r
    by (simp add: zip_map_map case_prod_unfold)
  then show ?thesis
    using assms(2)
    by (simp only: metric_sparse_euclidean_def Let_def sum_list_map2_min sum_list_map_count)
qed

text \<open>
  C1 as stated: the q-gram similarity is the generalized Jaccard coefficient, and for
  \<open>abc\<close> and \<open>abd\<close> with bigrams and no word boundary it is 1/3. On that input the
  vocabulary is \<open>ab\<close>, \<open>bc\<close>, \<open>bd\<close>, the Jaccard formula gives 1/3 and the function
  returns 1/2.
\<close>

theorem qgram_similarity_not_jaccard:
  "vocabulary_of (map (char_ngrams (2, 2)) (fillna ([Some ''abc''] @ [Some ''abd''])))
       = [''ab'', ''bc'', ''bd'']
   \<and> generalized_jaccard [''ab'', ''bc'', ''bd'']
         (char_ngrams (2, 2) ''abc'') (char_ngrams (2, 2) ''abd'') = Num (1 / 3)
   \<and> qgram_similarity char_vectorizer [Some ''abc''] [Some ''abd''] False (2, 2)
       = Inr [Num (1 / 2)]
   \<and> qgram_similarity char_vectorizer [Some ''abc''] [Some ''abd''] False (2, 2)
       \<noteq> Inr [Num (1 / 3)]"
  by code_simp

text \<open>
  C1, amended. For two Series of the same non-zero length whose strings yield at least
  one n-gram, the q-gram similarity of a row divides the sum over all vocabulary
  n-grams \<open>g\<close> of \<open>min(countA[g], countB[g])\<close> by the larger of the two sums
  \<open>sum countA[g]\<close> and \<open>sum countB[g]\<close> over the vocabulary (a missing string counts
  as the empty string).
\<close>

theorem qgram_similarity_formula:
  assumes "length s1 = length s2" and "s1 \<noteq> []"
    and "an = vectorizer (if include_wb then ''char_wb'' else ''char'') ngram"
    and "V = set (vocabulary_of (map an (fillna (s1 @ s2))))"
    and "V \<noteq> {}"
  shows "qgram_similarity vectorizer s1 s2 include_wb ngram
       = Inr (map2 (\<lambda>a b. np_true_divide
                 (of_nat (\<Sum>g \<in> V. min (count_list (an a) g) (count_list (an b) g)))
                 (of_nat (max (\<Sum>g \<in> V. count_list (an a) g) (\<Sum>g \<in> V. count_list (an b) g))))
               (fillna s1) (fillna s2))"
proof -
  let ?W = "vocabulary_of (map an (fillna s1) @ map an (fillna s2))"
  have V: "V = set ?W"
    using assms(4) by (simp add: fillna_append)
  with assms(5) have ne: "?W \<noteq> []" by auto
  have len: "length (fillna s1) = length (fillna s2)"
    using assms(1) by (simp add: length_fillna)
  have "qgram_similarity vectorizer s1 s2 include_wb ngram
        = Inr (metric_sparse_euclidean (map (\<lambda>d. map (count_list (an d)) ?W) (fillna s1))
                 (map (\<lambda>d. map (count_list (an d)) ?W) (fillna s2)))"
    using assms(1,2) ne unfolding assms(3)
    by (auto simp add: qgram_similarity_def fillna_append fit_transform_append length_fillna
        Let_def)
  then show ?thesis
    by (simp add: metric_sparse_euclidean_rows [OF len distinct_vocabulary_of] V)
qed

theorem qgram_similarity_formula_witness:
  "qgram_similarity char_vectorizer [Some ''abc''] [Some ''abd''] False (2, 2)
     = Inr [Num (1 / 2)]"
proof -
  let ?V = "[''ab'', ''bc'', ''bd'']"
  have a: "char_ngrams (2, 2) ''abc'' = [''ab'', ''bc'']" by code_simp
  have b: "char_ngrams (2, 2) ''abd'' = [''ab'', ''bd'']" by code_simp
  have v: "vocabulary_of [[''ab'', ''bc''], [''ab'', ''bd'']] = ?V" by code_simp
  have cv: "char_ngrams (2, 2) = char_vectorizer (if False then ''char_wb'' else ''char'') (2, 2)"
    by (rule ext) (simp add: char_vectorizer_def)
  have h4: "set ?V = set (vocabulary_of (map (char_ngrams (2, 2))
                (fillna ([Some ''abc''] @ [Some ''abd'']))))"
    by (simp add: fillna_def a b v)
  have d: "distinct ?V" by simp
  have s1: "(\<Sum>g \<in> set ?V. min (count_list [''ab'', ''bc''] g) (count_list [''ab'', ''bd''] g)) = 1"
    unfolding sum_list_distinct_conv_sum_set [OF d, symmetric] by simp
  have s2: "(\<Sum>g \<in> set ?V. count_list [''ab'', ''bc''] g) = 2"
    unfolding sum_list_distinct_conv_sum_set [OF d, symmetric] by simp
  have s3: "(\<Sum>g \<in> set ?V. count_list [''ab'', ''bd''] g) = 2"
    unfolding sum_list_distinct_conv_sum_set [OF d, symmetric] by simp
  have "qgram_similarity char_vectorizer [Some ''abc''] [Some ''abd''] False (2, 2)
        = Inr (map2 (\<lambda>a b. np_true_divide
                 (of_nat (\<Sum>g \<in> set ?V. min (count_list (char_ngrams (2, 2) a) g)
                                              (count_list (char_ngrams (2, 2) b) g)))
                 (of_nat (max (\<Sum>g \<in> set ?V. count_list (char_ngrams (2, 2) a) g)
                              (\<Sum>g \<in> set ?V. count_list (char_ngrams (2, 2) b) g))))
               (fillna [Some ''abc'']) (fillna [Some ''abd'']))"
    using qgram_similarity_formula [of "[Some ''abc'']" "[Some ''abd'']" "char_ngrams (2, 2)"
        char_vectorizer False "(2, 2)" "set ?V", OF _ _ cv h4]
    by simp
  then show ?thesis
    by (simp only: fillna_def list.map option.case zip.simps list.case prod.case a b s1 s2 s3)
       (simp add: np_true_divide_def)
qed

subsection \<open>Symmetry\<close>

lemma jaro_apply_swap:
  "(\<And>a b. f a b = f b a) \<Longrightarrow> jaro_apply f (prod.swap x) = jaro_apply f x"
  by (cases x) (auto simp: jaro_apply_def jellyfish_call_def except_isnull_def isnull_def
      split: option.splits sum.splits)

lemma levenshtein_apply_swap:
  assumes "\<And>a b. f a b = f b a"
  shows "levenshtein_apply f (prod.swap x) = levenshtein_apply f x"
proof (cases x)
  case (Pair x0 x1)
  show ?thesis
  proof (cases x0)
    case None
    with Pair show ?thesis
      by (simp add: levenshtein_apply_def jellyfish_call_def except_isnull_def isnull_def
          split: option.splits)
  next
    case (Some a)
    note a = this
    show ?thesis
    proof (cases x1)
      case None
      with Pair a show ?thesis
        by (simp add: levenshtein_apply_def jellyfish_call_def except_isnull_def isnull_def)
    next
      case (Some b)
      with Pair a assms [of a b] show ?thesis
        by (simp add: levenshtein_apply_def jellyfish_call_def except_isnull_def isnull_def
            py_len_def max.commute split: sum.splits)
    qed
  qed
qed

lemma metric_sparse_euclidean_commute:
  "metric_sparse_euclidean u v = metric_sparse_euclidean v u"
  unfolding metric_sparse_euclidean_def
  by (rule map2_commute) (simp add: max.commute map2_commute [of min min] min.commute)

lemma metric_sparse_cosine_commute:
  "metric_sparse_cosine u v = metric_sparse_cosine v u"
  unfolding metric_sparse_cosine_def
  by (rule map2_commute) (simp add: mult.commute map2_commute [of "(*)" "(*)"])

lemma qgram_similarity_swap:
  "qgram_similarity vectorizer s2 s1 include_wb ngram
     = qgram_similarity vectorizer s1 s2 include_wb ngram"
proof (cases "length s1 = length s2")
  case False
  then show ?thesis by (auto simp: qgram_similarity_def)
next
  case True
  then have l: "length (fillna s2) = length s1" "length (fillna s1) = length s2"
    by (simp_all add: length_fillna)
  show ?thesis
    using True l
    by (simp add: qgram_similarity_def fillna_append fit_transform_append Let_def
        vocabulary_of_commute [of "map _ (fillna s2)" "map _ (fillna s1)"]
        metric_sparse_euclidean_commute [of "map _ (fillna s2)"])
qed

lemma cosine_similarity_swap:
  "cosine_similarity vectorizer s2 s1 include_wb ngram
     = cosine_similarity vectorizer s1 s2 include_wb ngram"
proof (cases "length s1 = length s2")
  case False
  then show ?thesis by (auto simp: cosine_similarity_def)
next
  case True
  then have l: "length (fillna s2) = length s1" "length (fillna s1) = length s2"
    by (simp_all add: length_fillna)
  show ?thesis
    using True l
    by (simp add: cosine_similarity_def fillna_append fit_transform_append Let_def
        vocabulary_of_commute [of "map _ (fillna s2)" "map _ (fillna s1)"]
        metric_sparse_cosine_commute [of "map _ (fillna s2)"])
qed

text \<open>
  C9. With symmetric primitives (the Jaro similarity and the Levenshtein distance of
  the library give the same value for \<open>(a, b)\<close> and \<open>(b, a)\<close>), swapping the two
  Series leaves the result of the Jaro, Levenshtein, q-gram and cosine similarity
  unchanged, errors included, and the vocabulary built from the swapped Series is the
  same list.
\<close>

theorem similarity_symmetric:
  assumes "\<And>a b. jaro_distance a b = jaro_distance b a"
    and "\<And>a b. levenshtein_distance a b = levenshtein_distance b a"
  shows "jaro_similarity jaro_distance s2 s1 = jaro_similarity jaro_distance s1 s2
       \<and> levenshtein_similarity levenshtein_distance s2 s1
           = levenshtein_similarity levenshtein_distance s1 s2
       \<and> qgram_similarity vectorizer s2 s1 include_wb ngram
           = qgram_similarity vectorizer s1 s2 include_wb ngram
       \<and> cosine_similarity vectorizer s2 s1 include_wb ngram
           = cosine_similarity vectorizer s1 s2 include_wb ngram
       \<and> vocabulary_of (map (vectorizer name ngram) (fillna (s2 @ s1)))
           = vocabulary_of (map (vectorizer name ngram) (fillna (s1 @ s2)))"
proof -
  have "jaro_similarity jaro_distance s2 s1 = jaro_similarity jaro_distance s1 s2"
    unfolding jaro_similarity_def concat_axis1_swap [of s2 s1]
    by (rule apply_rows_cong_map) (rule jaro_apply_swap, rule assms(1))
  moreover have "levenshtein_similarity levenshtein_distance s2 s1
           = levenshtein_similarity levenshtein_distance s1 s2"
    unfolding levenshtein_similarity_def concat_axis1_swap [of s2 s1]
    by (rule apply_rows_cong_map) (rule levenshtein_apply_swap, rule assms(2))
  ultimately show ?thesis
    by (simp add: qgram_similarity_swap cosine_similarity_swap fillna_append
        vocabulary_of_commute [of "map _ (fillna s2)"])
qed

theorem similarity_symmetric_witness:
  "jaro_similarity (\<lambda>a b. Inr (if a = b then 1 else 0))
       [Some ''abd'', Some ''ab''] [Some ''abc'', None]
     = jaro_similarity (\<lambda>a b. Inr (if a = b then 1 else 0))
         [Some ''abc'', None] [Some ''abd'', Some ''ab'']
   \<and> levenshtein_similarity (\<lambda>a b. Inr (edit_distance a b))
         [Some ''abd'', Some ''ab''] [Some ''abc'', None]
     = levenshtein_similarity (\<lambda>a b. Inr (edit_distance a b))
         [Some ''abc'', None] [Some ''abd'', Some ''ab'']
   \<and> qgram_similarity char_vectorizer [Some ''abd'', Some ''ab''] [Some ''abc'', None] False (2, 2)
     = qgram_similarity char_vectorizer [Some ''abc'', None] [Some ''abd'', Some ''ab''] False (2, 2)
   \<and> cosine_similarity char_vectorizer [Some ''abd'', Some ''ab''] [Some ''abc'', None] False (2, 2)
     = cosine_similarity char_vectorizer [Some ''abc'', None] [Some ''abd'', Some ''ab''] False (2, 2)
   \<and> vocabulary_of (map (char_vectorizer ''char'' (2, 2))
         (fillna ([Some ''abd'', Some ''ab''] @ [Some ''abc'', None])))
     = vocabulary_of (map (char_vectorizer ''char'' (2, 2))
         (fillna ([Some ''abc'', None] @ [Some ''abd'', Some ''ab''])))"
  by (rule similarity_symmetric) (auto simp: edit_distance_sym)

subsection \<open>The Smith-Waterman table\<close>

lemma fold_upt_invariant:
  assumes "P a s" and "\<And>i s. a \<le> i \<Longrightarrow> i < b \<Longrightarrow> P i s \<Longrightarrow> P (Suc i) (f i s)" and "a \<le> b"
  shows "P b (fold f [a ..< b] s)"
  using assms(3,2)
proof (induction b rule: dec_induct)
  case base
  show ?case using assms(1) by simp
next
  case (step n)
  have "P n (fold f [a ..< n] s)"
    by (rule step.IH) (simp add: step.prems less_SucI)
  then have "P (Suc n) (f n (fold f [a ..< n] s))"
    using step.hyps by (intro step.prems) simp_all
  then show ?case using step.hyps by simp
qed

lemma grid_invariant:
  assumes init: "Q 1 1 s0"
    and step: "\<And>x y s. 1 \<le> x \<Longrightarrow> x \<le> k \<Longrightarrow> 1 \<le> y \<Longrightarrow> y \<le> n \<Longrightarrow> Q x y s \<Longrightarrow> Q x (Suc y) (cell x y s)"
    and wrap: "\<And>x s. Q x (Suc n) s \<Longrightarrow> Q (Suc x) 1 s"
  shows "Q (Suc k) 1 (fold (\<lambda>x. fold (cell x) [1 ..< 1 + n]) [1 ..< 1 + k] s0)"
proof -
  have row: "Q (Suc x) 1 (fold (cell x) [1 ..< 1 + n] s)" if "1 \<le> x" "x \<le> k" "Q x 1 s" for x s
  proof -
    have "Q x (Suc n) (fold (cell x) [1 ..< Suc n] s)"
      by (rule fold_upt_invariant [where P = "Q x"]) (use that step in auto)
    then have "Q (Suc x) 1 (fold (cell x) [1 ..< Suc n] s)" by (rule wrap)
    then show ?thesis by (simp del: upt_Suc)
  qed
  have "Q (Suc k) 1 (fold (\<lambda>x. fold (cell x) [1 ..< 1 + n]) [1 ..< Suc k] s0)"
    by (rule fold_upt_invariant [where P = "\<lambda>x. Q x 1"]) (use init row in auto)
  then show ?thesis by (simp del: upt_Suc)
qed

lemma set2_nth:
  "x < length g \<Longrightarrow> y < length (g ! x) \<Longrightarrow>
   set2 g x y v ! i ! j = (if i = x \<and> j = y then v else g ! i ! j)"
  by (auto simp: set2_def nth_list_update)

lemma set2_dims: "x \<le> k \<Longrightarrow> grid_dims k n g \<Longrightarrow> grid_dims k n (set2 g x y v)"
  by (auto simp: set2_def grid_dims_def nth_list_update)

lemma set2_set2: "x < length g \<Longrightarrow> set2 (set2 g x y u) x y v = set2 g x y v"
  by (simp add: set2_def)

lemma set2_same: "x < length g \<Longrightarrow> y < length (g ! x) \<Longrightarrow> g ! x ! y = v \<Longrightarrow> set2 g x y v = g"
  by (auto simp: set2_def list_update_same_conv)

lemma append2_set2:
  "x < length g \<Longrightarrow> y < length (g ! x) \<Longrightarrow>
   append2 (set2 g x y u) x y v = set2 g x y (u @ [v])"
  by (simp add: append2_def set2_def)

lemma grid_dims_nth: "grid_dims k n g \<Longrightarrow> x \<le> k \<Longrightarrow> y \<le> n \<Longrightarrow> x < length g \<and> y < length (g ! x)"
  by (simp add: grid_dims_def)

lemma sw_cell_result:
  assumes dm: "grid_dims k n (sw_m s)" and dt: "grid_dims k n (sw_trace s)"
    and x: "x \<le> k" and y: "y \<le> n" and empty: "sw_trace s ! x ! y = []"
  shows "sw_cell match mismatch gap_start gap_continue str1 str2 x y s =
           \<lparr>sw_m = set2 (sw_m s) x y
                     (max 0 (sw_best match mismatch gap_start gap_continue str1 str2 s x y)),
            sw_trace = set2 (sw_trace s) x y
                     (sw_labels match mismatch gap_start gap_continue str1 str2 s x y),
            sw_highest = max (sw_highest s)
                     (max 0 (sw_best match mismatch gap_start gap_continue str1 str2 s x y))\<rparr>"
proof -
  from grid_dims_nth [OF dt x y] have lt: "x < length (sw_trace s)" "y < length (sw_trace s ! x)"
    by simp_all
  have t0: "sw_trace s = set2 (sw_trace s) x y []"
    using lt empty by (simp add: set2_same)
  have ap: "append2 (sw_trace s) x y v = set2 (sw_trace s) x y [v]" for v
    by (simp add: append2_def empty)
  have ap2: "append2 (set2 (sw_trace s) x y u) x y v = set2 (sw_trace s) x y (u @ [v])" for u v
    using lt by (rule append2_set2)
  define d where "d = sw_diagonal match mismatch str1 str2 s x y"
  define l where "l = sw_gap_left gap_start gap_continue s x y"
  define ab where "ab = sw_gap_above gap_start gap_continue s x y"
  define best where "best = max d (max l ab)"
  define T where "T = sw_trace s"
  define t1 where "t1 = (if best = d then append2 T x y ''D'' else T)"
  define t2 where "t2 = (if best = ab then append2 t1 x y ''A'' else t1)"
  define t3 where "t3 = (if best = l then append2 t2 x y ''L'' else t2)"
  have e1: "t1 = set2 T x y (if best = d then [''D''] else [])"
    unfolding t1_def T_def using ap t0 by simp
  have e2: "t2 = set2 T x y ((if best = d then [''D''] else []) @ (if best = ab then [''A''] else []))"
    unfolding t2_def e1 T_def using ap2 by simp
  have e3: "t3 = set2 T x y ((if best = d then [''D''] else []) @ (if best = ab then [''A''] else [])
                 @ (if best = l then [''L''] else []))"
    unfolding t3_def e2 T_def using ap2 by simp
  have cell: "sw_cell match mismatch gap_start gap_continue str1 str2 x y s =
          \<lparr>sw_m = set2 (sw_m s) x y (if best \<le> 0 then 0 else best),
           sw_trace = (if best \<le> 0 then T else t3),
           sw_highest = (if sw_highest s < (if best \<le> 0 then 0 else best)
                         then (if best \<le> 0 then 0 else best) else sw_highest s)\<rparr>"
    unfolding sw_cell_def Let_def best_def d_def l_def ab_def t3_def t2_def t1_def T_def
      sw_diagonal_def sw_gap_left_def sw_gap_above_def
    by (simp only: if_distrib [of "(+) _"])
  have lab: "sw_labels match mismatch gap_start gap_continue str1 str2 s x y =
      (if best \<le> 0 then [] else (if best = d then [''D''] else []) @ (if best = ab then [''A''] else [])
                 @ (if best = l then [''L''] else []))"
    unfolding sw_labels_def sw_best_def Let_def best_def d_def l_def ab_def by simp
  have bst: "sw_best match mismatch gap_start gap_continue str1 str2 s x y = best"
    unfolding sw_best_def best_def d_def l_def ab_def by simp
  have "(if best \<le> 0 then T else t3) = set2 T x y (sw_labels match mismatch gap_start gap_continue str1 str2 s x y)"
    unfolding lab e3 using t0 by (simp add: T_def)
  then show ?thesis
    unfolding cell bst by (simp add: max_def T_def)
qed

lemma sw_candidates_agree:
  assumes "sw_m s' ! (i - 1) ! (j - 1) = sw_m s ! (i - 1) ! (j - 1)"
    and "sw_m s' ! (i - 1) ! j = sw_m s ! (i - 1) ! j"
    and "sw_m s' ! i ! (j - 1) = sw_m s ! i ! (j - 1)"
    and "sw_trace s' ! (i - 1) ! j = sw_trace s ! (i - 1) ! j"
    and "sw_trace s' ! i ! (j - 1) = sw_trace s ! i ! (j - 1)"
  shows "sw_best match mismatch gap_start gap_continue str1 str2 s' i j
           = sw_best match mismatch gap_start gap_continue str1 str2 s i j"
    and "sw_labels match mismatch gap_start gap_continue str1 str2 s' i j
           = sw_labels match mismatch gap_start gap_continue str1 str2 s i j"
  unfolding sw_best_def sw_labels_def sw_diagonal_def sw_gap_left_def sw_gap_above_def
  by (simp_all only: assms)

lemma grid_dims_replicate: "grid_dims k n (replicate (Suc k) (replicate (Suc n) v))"
  unfolding grid_dims_def by (simp del: replicate_Suc)

lemma nth_replicate2:
  "i \<le> k \<Longrightarrow> j \<le> n \<Longrightarrow> replicate (Suc k) (replicate (Suc n) v) ! i ! j = v"
  by (simp del: replicate_Suc)

lemma not_visited_start: "\<not> visited n (Suc 0) (Suc 0) i j"
  by (simp add: visited_def)

lemma sw_inv_init:
  "sw_inv match mismatch gap_start gap_continue str1 str2 1 1 (sw_init str1 str2)"
  unfolding sw_inv_def sw_init_def
  by (simp add: grid_dims_replicate nth_replicate2 not_visited_start del: replicate_Suc)

lemma visited_wrap: "visited n x (Suc n) i j = visited n (Suc x) 1 i j"
  unfolding visited_def by auto

lemma sw_inv_wrap:
  "sw_inv match mismatch gap_start gap_continue str1 str2 x (Suc (length str2)) s \<Longrightarrow>
   sw_inv match mismatch gap_start gap_continue str1 str2 (Suc x) 1 s"
  unfolding sw_inv_def visited_wrap .

lemma visited_step:
  "1 \<le> x \<Longrightarrow> 1 \<le> y \<Longrightarrow> y \<le> n \<Longrightarrow>
   visited n x (Suc y) i j = (visited n x y i j \<or> (i = x \<and> j = y))"
  unfolding visited_def by auto

lemma sw_inv_step:
  assumes inv: "sw_inv match mismatch gap_start gap_continue str1 str2 x y s"
    and x: "1 \<le> x" "x \<le> length str1" and y: "1 \<le> y" "y \<le> length str2"
  shows "sw_inv match mismatch gap_start gap_continue str1 str2 x (Suc y)
           (sw_cell match mismatch gap_start gap_continue str1 str2 x y s)"
proof -
  define best where "best = sw_best match mismatch gap_start gap_continue str1 str2 s x y"
  define labs where "labs = sw_labels match mismatch gap_start gap_continue str1 str2 s x y"
  define s' where "s' = sw_cell match mismatch gap_start gap_continue str1 str2 x y s"
  from inv have dm: "grid_dims (length str1) (length str2) (sw_m s)"
    and dt: "grid_dims (length str1) (length str2) (sw_trace s)"
    and hi: "sw_highest s = 0 \<or> (\<exists>i j. i \<le> length str1 \<and> visited (length str2) x y i j
               \<and> sw_highest s = sw_m s ! i ! j)"
    unfolding sw_inv_def by blast+
  from inv have cells: "if visited (length str2) x y i j
             then sw_cell_ok match mismatch gap_start gap_continue str1 str2 s i j
                  \<and> sw_m s ! i ! j \<le> sw_highest s
             else sw_m s ! i ! j = 0 \<and> sw_trace s ! i ! j = []"
    if "i \<le> length str1" "j \<le> length str2" for i j
    unfolding sw_inv_def using that by blast
  have nv: "\<not> visited (length str2) x y x y" by (simp add: visited_def)
  have empty: "sw_m s ! x ! y = 0" "sw_trace s ! x ! y = []"
    using cells [OF x(2) y(2)] nv by simp_all
  have s': "s' = \<lparr>sw_m = set2 (sw_m s) x y (max 0 best),
                  sw_trace = set2 (sw_trace s) x y labs,
                  sw_highest = max (sw_highest s) (max 0 best)\<rparr>"
    unfolding s'_def best_def labs_def by (rule sw_cell_result [OF dm dt x(2) y(2) empty(2)])
  have m': "sw_m s' ! i ! j = (if i = x \<and> j = y then max 0 best else sw_m s ! i ! j)" for i j
    unfolding s' using grid_dims_nth [OF dm x(2) y(2)] by (simp add: set2_nth)
  have t': "sw_trace s' ! i ! j = (if i = x \<and> j = y then labs else sw_trace s ! i ! j)" for i j
    unfolding s' using grid_dims_nth [OF dt x(2) y(2)] by (simp add: set2_nth)
  have h': "sw_highest s' = max (sw_highest s) (max 0 best)"
    unfolding s' by simp
  have dm': "grid_dims (length str1) (length str2) (sw_m s')"
    unfolding s' using set2_dims [OF x(2) dm] by simp
  have dt': "grid_dims (length str1) (length str2) (sw_trace s')"
    unfolding s' using set2_dims [OF x(2) dt] by simp
  have xy: "x - 1 \<noteq> x" "y - 1 \<noteq> y" using x(1) y(1) by arith+
  have new: "sw_cell_ok match mismatch gap_start gap_continue str1 str2 s' x y"
  proof -
    have a: "sw_m s' ! (x - 1) ! (y - 1) = sw_m s ! (x - 1) ! (y - 1)"
      "sw_m s' ! (x - 1) ! y = sw_m s ! (x - 1) ! y"
      "sw_m s' ! x ! (y - 1) = sw_m s ! x ! (y - 1)"
      "sw_trace s' ! (x - 1) ! y = sw_trace s ! (x - 1) ! y"
      "sw_trace s' ! x ! (y - 1) = sw_trace s ! x ! (y - 1)"
      using xy by (simp_all add: m' t')
    have "sw_best match mismatch gap_start gap_continue str1 str2 s' x y = best"
      and "sw_labels match mismatch gap_start gap_continue str1 str2 s' x y = labs"
      unfolding best_def labs_def
      by (rule sw_candidates_agree [OF a])+
    then show ?thesis unfolding sw_cell_ok_def by (simp add: m' t')
  qed
  have old: "sw_cell_ok match mismatch gap_start gap_continue str1 str2 s' i j
               = sw_cell_ok match mismatch gap_start gap_continue str1 str2 s i j"
    if v: "visited (length str2) x y i j" for i j
  proof -
    from v have ne: "\<not> (i = x \<and> j = y)" "\<not> (i - 1 = x \<and> j - 1 = y)"
      "\<not> (i - 1 = x \<and> j = y)" "\<not> (i = x \<and> j - 1 = y)"
      unfolding visited_def by auto
    have a: "sw_m s' ! (i - 1) ! (j - 1) = sw_m s ! (i - 1) ! (j - 1)"
      "sw_m s' ! (i - 1) ! j = sw_m s ! (i - 1) ! j"
      "sw_m s' ! i ! (j - 1) = sw_m s ! i ! (j - 1)"
      "sw_trace s' ! (i - 1) ! j = sw_trace s ! (i - 1) ! j"
      "sw_trace s' ! i ! (j - 1) = sw_trace s ! i ! (j - 1)"
      using ne by (auto simp: m' t')
    have "sw_best match mismatch gap_start gap_continue str1 str2 s' i j
            = sw_best match mismatch gap_start gap_continue str1 str2 s i j"
      and "sw_labels match mismatch gap_start gap_continue str1 str2 s' i j
            = sw_labels match mismatch gap_start gap_continue str1 str2 s i j"
      by (rule sw_candidates_agree [OF a])+
    moreover have "sw_m s' ! i ! j = sw_m s ! i ! j" "sw_trace s' ! i ! j = sw_trace s ! i ! j"
      using ne(1) by (auto simp: m' t')
    ultimately show ?thesis unfolding sw_cell_ok_def by (simp only:)
  qed
  have cells': "if visited (length str2) x y i j \<or> i = x \<and> j = y
             then sw_cell_ok match mismatch gap_start gap_continue str1 str2 s' i j
                  \<and> sw_m s' ! i ! j \<le> sw_highest s'
             else sw_m s' ! i ! j = 0 \<and> sw_trace s' ! i ! j = []"
    if ij: "i \<le> length str1" "j \<le> length str2" for i j
  proof (cases "i = x \<and> j = y")
    case True
    then show ?thesis using new by (simp add: m' h')
  next
    case False
    show ?thesis
    proof (cases "visited (length str2) x y i j")
      case True
      with cells [OF ij] old [OF True] False show ?thesis
        by (auto simp: m' h' max.coboundedI1)
    next
      case nv: False
      with cells [OF ij] False show ?thesis
        by (auto simp: m' t')
    qed
  qed
  have hi': "sw_highest s' = 0 \<or> (\<exists>i j. i \<le> length str1
               \<and> (visited (length str2) x y i j \<or> i = x \<and> j = y)
               \<and> sw_highest s' = sw_m s' ! i ! j)"
  proof (cases "sw_highest s \<le> max 0 best")
    case True
    then have "sw_highest s' = sw_m s' ! x ! y" by (simp add: h' m' max_absorb2)
    with x(2) show ?thesis by blast
  next
    case False
    then have eq: "sw_highest s' = sw_highest s" by (simp add: h' max_def)
    from hi show ?thesis
    proof
      assume "sw_highest s = 0"
      with eq show ?thesis by simp
    next
      assume "\<exists>i j. i \<le> length str1 \<and> visited (length str2) x y i j
               \<and> sw_highest s = sw_m s ! i ! j"
      then obtain i j where ij: "i \<le> length str1" "visited (length str2) x y i j"
        "sw_highest s = sw_m s ! i ! j" by blast
      from ij(2) nv have "\<not> (i = x \<and> j = y)" by auto
      with ij eq have "sw_highest s' = sw_m s' ! i ! j" by (auto simp: m')
      with ij show ?thesis by blast
    qed
  qed
  show ?thesis
    unfolding sw_inv_def s'_def [symmetric] visited_step [OF x(1) y(1) y(2)]
    using dm' dt' cells' hi' by blast
qed

lemma sw_run_inv:
  "sw_inv match mismatch gap_start gap_continue str1 str2 (Suc (length str1)) 1
     (sw_run match mismatch gap_start gap_continue str1 str2)"
proof -
  have "sw_inv match mismatch gap_start gap_continue str1 str2 (Suc (length str1)) 1
     (fold (\<lambda>x. fold (sw_cell match mismatch gap_start gap_continue str1 str2 x)
                    [1 ..< 1 + length str2])
        [1 ..< 1 + length str1] (sw_init str1 str2))"
    by (rule grid_invariant [where Q = "sw_inv match mismatch gap_start gap_continue str1 str2"])
      (rule sw_inv_init, rule sw_inv_step, assumption+, rule sw_inv_wrap)
  then show ?thesis
    unfolding sw_run_def sw_row_def [abs_def] .
qed

lemma visited_final:
  "i \<le> k \<Longrightarrow> visited n (Suc k) 1 i j = (1 \<le> i \<and> 1 \<le> j \<and> j \<le> n)"
  unfolding visited_def by auto

text \<open>
  C6 as stated: every cell records each of the three moves that ties for the maximum
  \<open>max(0, diagonal, gapFromLeft, gapFromAbove)\<close>. For \<open>ab\<close> and \<open>ac\<close> with the default
  parameters the cell (1, 2) has the gap from above equal to 0, which is the score of
  the cell, and an empty trace.
\<close>

theorem sw_zero_cell_records_nothing:
  "sw_m (sw_run 5 (- 5) (- 5) (- 1) ''ab'' ''ac'') ! 1 ! 2 = 0
   \<and> sw_gap_above (- 5) (- 1) (sw_run 5 (- 5) (- 5) (- 1) ''ab'' ''ac'') 1 2 = 0
   \<and> sw_trace (sw_run 5 (- 5) (- 5) (- 1) ''ab'' ''ac'') ! 1 ! 2 = []
   \<and> \<not> sw_records_ties 5 (- 5) (- 5) (- 1) ''ab'' ''ac''
         (sw_run 5 (- 5) (- 5) (- 1) ''ab'' ''ac'') 1 2"
  by code_simp


text \<open>
  C6, amended. In the table \<open>compute_score\<close> leaves, every cell \<open>(x, y)\<close> inside the
  strings holds \<open>max(0, diagonal, gap_left, gap_above)\<close>, the candidates being read from
  the final table, a gap move charged \<open>gap_continue\<close> exactly when the trace of the
  predecessor cell holds the label of the same direction; the trace of the cell holds
  a label exactly when the maximum is positive and the move of the label attains it (a
  cell reset to 0 records nothing); the border cells are 0 with an empty trace; and
  the result is the largest value of a cell.
\<close>

theorem sw_cell_recurrence:
  assumes "1 \<le> x" and "x \<le> length str1" and "1 \<le> y" and "y \<le> length str2"
    and "s = sw_run match mismatch gap_start gap_continue str1 str2"
    and "diagonal = sw_diagonal match mismatch str1 str2 s x y"
    and "gap_left = sw_gap_left gap_start gap_continue s x y"
    and "gap_above = sw_gap_above gap_start gap_continue s x y"
    and "best = max diagonal (max gap_left gap_above)"
  shows "sw_m s ! x ! y = max 0 best
       \<and> (''D'' \<in> set (sw_trace s ! x ! y)) = (0 < best \<and> diagonal = best)
       \<and> (''L'' \<in> set (sw_trace s ! x ! y)) = (0 < best \<and> gap_left = best)
       \<and> (''A'' \<in> set (sw_trace s ! x ! y)) = (0 < best \<and> gap_above = best)
       \<and> sw_m s ! x ! 0 = 0 \<and> sw_trace s ! x ! 0 = []
       \<and> sw_m s ! 0 ! y = 0 \<and> sw_trace s ! 0 ! y = []
       \<and> sw_m s ! 0 ! 0 = 0 \<and> sw_trace s ! 0 ! 0 = []
       \<and> sw_m s ! x ! y \<le> compute_score match mismatch gap_start gap_continue str1 str2
       \<and> (\<exists>i j. 1 \<le> i \<and> i \<le> length str1 \<and> 1 \<le> j \<and> j \<le> length str2
             \<and> compute_score match mismatch gap_start gap_continue str1 str2 = sw_m s ! i ! j)"
proof -
  have inv: "sw_inv match mismatch gap_start gap_continue str1 str2 (Suc (length str1)) 1 s"
    unfolding assms(5) by (rule sw_run_inv)
  have cs: "compute_score match mismatch gap_start gap_continue str1 str2 = sw_highest s"
    by (simp add: compute_score_def assms(5))
  from inv have cells: "if 1 \<le> i \<and> 1 \<le> j \<and> j \<le> length str2
             then sw_cell_ok match mismatch gap_start gap_continue str1 str2 s i j
                  \<and> sw_m s ! i ! j \<le> sw_highest s
             else sw_m s ! i ! j = 0 \<and> sw_trace s ! i ! j = []"
    if "i \<le> length str1" "j \<le> length str2" for i j
    unfolding sw_inv_def using that visited_final [OF that(1)] by simp
  from inv have hi: "sw_highest s = 0 \<or> (\<exists>i j. i \<le> length str1
        \<and> visited (length str2) (Suc (length str1)) 1 i j \<and> sw_highest s = sw_m s ! i ! j)"
    unfolding sw_inv_def by blast
  have bst: "sw_best match mismatch gap_start gap_continue str1 str2 s x y = best"
    by (simp add: sw_best_def assms)
  have lab: "sw_labels match mismatch gap_start gap_continue str1 str2 s x y =
      (if best \<le> 0 then []
       else (if best = diagonal then [''D''] else []) @ (if best = gap_above then [''A''] else [])
            @ (if best = gap_left then [''L''] else []))"
    unfolding sw_labels_def bst Let_def by (simp add: assms(6,7,8))
  from cells [OF assms(2,4)] assms(1,3,4)
  have ok: "sw_cell_ok match mismatch gap_start gap_continue str1 str2 s x y"
    and le: "sw_m s ! x ! y \<le> sw_highest s" by simp_all
  from ok have m: "sw_m s ! x ! y = max 0 best" and t: "sw_trace s ! x ! y =
      (if best \<le> 0 then []
       else (if best = diagonal then [''D''] else []) @ (if best = gap_above then [''A''] else [])
            @ (if best = gap_left then [''L''] else []))"
    unfolding sw_cell_ok_def bst lab by simp_all
  have b1: "sw_m s ! x ! 0 = 0 \<and> sw_trace s ! x ! 0 = []"
    using cells [OF assms(2), of 0] by simp
  have b2: "sw_m s ! 0 ! y = 0 \<and> sw_trace s ! 0 ! y = []"
    using cells [OF _ assms(4), of 0] by simp
  have b3: "sw_m s ! 0 ! 0 = 0 \<and> sw_trace s ! 0 ! 0 = []"
    using cells [of 0 0] by simp
  have ex: "\<exists>i j. 1 \<le> i \<and> i \<le> length str1 \<and> 1 \<le> j \<and> j \<le> length str2
             \<and> sw_highest s = sw_m s ! i ! j"
    using hi
  proof
    assume "sw_highest s = 0"
    with le m have "sw_highest s = sw_m s ! x ! y" by simp
    with assms(1-4) show ?thesis by blast
  next
    assume "\<exists>i j. i \<le> length str1
        \<and> visited (length str2) (Suc (length str1)) 1 i j \<and> sw_highest s = sw_m s ! i ! j"
    then obtain i j where ij: "i \<le> length str1"
      "visited (length str2) (Suc (length str1)) 1 i j" "sw_highest s = sw_m s ! i ! j"
      by blast
    from ij(2) have "1 \<le> i \<and> 1 \<le> j \<and> j \<le> length str2"
      by (simp only: visited_final [OF ij(1)])
    with ij(1,3) show ?thesis by blast
  qed
  have d: "(''D'' \<in> set (sw_trace s ! x ! y)) = (0 < best \<and> diagonal = best)"
    and l: "(''L'' \<in> set (sw_trace s ! x ! y)) = (0 < best \<and> gap_left = best)"
    and a: "(''A'' \<in> set (sw_trace s ! x ! y)) = (0 < best \<and> gap_above = best)"
    unfolding t by auto
  show ?thesis
    using m d l a b1 b2 b3 le ex unfolding cs by blast
qed


theorem sw_cell_recurrence_witness:
  "sw_m (sw_run 5 (- 5) (- 5) (- 1) ''ab'' ''ac'') ! 1 ! 1 = 5
   \<and> ''D'' \<in> set (sw_trace (sw_run 5 (- 5) (- 5) (- 1) ''ab'' ''ac'') ! 1 ! 1)
   \<and> ''L'' \<notin> set (sw_trace (sw_run 5 (- 5) (- 5) (- 1) ''ab'' ''ac'') ! 1 ! 1)
   \<and> ''A'' \<notin> set (sw_trace (sw_run 5 (- 5) (- 5) (- 1) ''ab'' ''ac'') ! 1 ! 1)
   \<and> compute_score 5 (- 5) (- 5) (- 1) ''ab'' ''ac'' = 5"
proof -
  let ?s = "sw_run 5 (- 5) (- 5) (- 1) ''ab'' ''ac''"
  have d: "sw_diagonal 5 (- 5) ''ab'' ''ac'' ?s 1 1 = 5" by code_simp
  have l: "sw_gap_left (- 5) (- 1) ?s 1 1 = - 5" by code_simp
  have a: "sw_gap_above (- 5) (- 1) ?s 1 1 = - 5" by code_simp
  have c: "compute_score 5 (- 5) (- 5) (- 1) ''ab'' ''ac'' = 5" by code_simp
  have h: "(5 :: rat) = max 5 (max (- 5) (- 5))" by simp
  show ?thesis
    using sw_cell_recurrence [where x = 1 and y = 1 and ?str1.0 = "''ab''" and ?str2.0 = "''ac''",
        OF _ _ _ _ refl d [symmetric] l [symmetric] a [symmetric] h]
    by (simp add: c)
qed

subsection \<open>Longest common substring similarity\<close>

lemma suffix_run_0 [simp]: "suffix_run a b i 0 = 0"
  by (cases i) simp_all

lemma suffix_run_le: "suffix_run a b i j \<le> min i j"
  by (induction a b i j rule: suffix_run.induct) auto

lemma seg_end_Suc:
  assumes "k \<le> i" and "i < length a"
  shows "seg_end a (Suc i) (Suc k) = seg_end a i k @ [a ! i]"
proof -
  have "k < length (drop (i - k) a)" using assms by simp
  then have "take (Suc k) (drop (i - k) a) = take k (drop (i - k) a) @ [drop (i - k) a ! k]"
    by (rule take_Suc_conv_app_nth)
  moreover have "drop (i - k) a ! k = a ! i" using assms by simp
  ultimately show ?thesis using assms by (simp add: seg_end_def)
qed

lemma seg_end_0 [simp]: "seg_end a i 0 = []"
  by (simp add: seg_end_def)

lemma length_seg_end: "k \<le> i \<Longrightarrow> i \<le> length a \<Longrightarrow> length (seg_end a i k) = k"
  by (auto simp: seg_end_def)

lemma suffix_run_common:
  "i \<le> length a \<Longrightarrow> j \<le> length b \<Longrightarrow>
   seg_end a i (suffix_run a b i j) = seg_end b j (suffix_run a b i j)"
proof (induction a b i j rule: suffix_run.induct)
  case (1 a b j)
  show ?case by simp
next
  case (2 a b i)
  show ?case by simp
next
  case (3 a b i j)
  show ?case
  proof (cases "a ! i = b ! j")
    case True
    have le: "suffix_run a b i j \<le> i" "suffix_run a b i j \<le> j"
      using suffix_run_le [of a b i j] by simp_all
    from 3 True have "seg_end a i (suffix_run a b i j) = seg_end b j (suffix_run a b i j)"
      by simp
    with True le 3(2,3) show ?thesis
      by (simp add: seg_end_Suc)
  next
    case False
    then show ?thesis by simp
  qed
qed

lemma suffix_run_maximal:
  "k \<le> i \<Longrightarrow> k \<le> j \<Longrightarrow> i \<le> length a \<Longrightarrow> j \<le> length b \<Longrightarrow>
   seg_end a i k = seg_end b j k \<Longrightarrow> k \<le> suffix_run a b i j"
proof (induction k arbitrary: i j)
  case 0
  show ?case by simp
next
  case (Suc k)
  from Suc.prems obtain i' j' where ij: "i = Suc i'" "j = Suc j'"
    by (cases i; cases j) auto
  with Suc.prems have b: "k \<le> i'" "i' < length a" "k \<le> j'" "j' < length b" by simp_all
  from Suc.prems(5) have "seg_end a i' k @ [a ! i'] = seg_end b j' k @ [b ! j']"
    unfolding ij by (simp add: seg_end_Suc b)
  then have eq: "seg_end a i' k = seg_end b j' k" and c: "a ! i' = b ! j'" by simp_all
  from b eq have "k \<le> suffix_run a b i' j'" by (intro Suc.IH) simp_all
  with c show ?case by (simp add: ij)
qed

lemma sublist_seg_end:
  "sublist v a = (\<exists>i. length v \<le> i \<and> i \<le> length a \<and> seg_end a i (length v) = v)"
proof
  assume "sublist v a"
  then obtain ps ss where a: "a = ps @ v @ ss" by (auto simp: sublist_def)
  have "seg_end a (length ps + length v) (length v) = v"
    by (simp add: seg_end_def a)
  moreover have "length ps + length v \<le> length a" by (simp add: a)
  ultimately show "\<exists>i. length v \<le> i \<and> i \<le> length a \<and> seg_end a i (length v) = v"
    by (intro exI [of _ "length ps + length v"]) simp
next
  assume "\<exists>i. length v \<le> i \<and> i \<le> length a \<and> seg_end a i (length v) = v"
  then obtain i where i: "length v \<le> i" "i \<le> length a" "seg_end a i (length v) = v" by blast
  have "a = take (i - length v) a @ drop (i - length v) a" by simp
  also have "drop (i - length v) a = take (length v) (drop (i - length v) a)
      @ drop (length v) (drop (i - length v) a)"
    by (rule append_take_drop_id [symmetric])
  finally have "a = take (i - length v) a @ v @ drop (length v) (drop (i - length v) a)"
    using i(3) by (simp add: seg_end_def)
  then show "sublist v a" unfolding sublist_def by blast
qed

lemma excise_first_eq:
  "p + length w \<le> length a \<Longrightarrow> take (length w) (drop p a) = w \<Longrightarrow>
   (\<And>q. q < p \<Longrightarrow> take (length w) (drop q a) \<noteq> w) \<Longrightarrow>
   excise_first w a = take p a @ drop (p + length w) a"
proof (induction a arbitrary: p)
  case Nil
  then show ?case by simp
next
  case (Cons c cs)
  show ?case
  proof (cases "take (length w) (c # cs) = w")
    case True
    have "p = 0"
    proof (rule ccontr)
      assume "p \<noteq> 0"
      then have "0 < p" by simp
      from Cons.prems(3) [OF this] True show False by simp
    qed
    with True show ?thesis by simp
  next
    case False
    with Cons.prems(2) have "p \<noteq> 0" by (cases p) auto
    then obtain p' where p: "p = Suc p'" by (cases p) auto
    have "excise_first w cs = take p' cs @ drop (p' + length w) cs"
    proof (rule Cons.IH)
      show "p' + length w \<le> length cs" using Cons.prems(1) p by simp
      show "take (length w) (drop p' cs) = w" using Cons.prems(2) p by simp
      show "take (length w) (drop q cs) \<noteq> w" if "q < p'" for q
        using Cons.prems(3) [of "Suc q"] that p by simp
    qed
    with False p show ?thesis by simp
  qed
qed

lemma lcs_cell_result:
  assumes dm: "grid_dims k n (lcs_m s)" and x: "1 \<le> x" "x \<le> k" and y: "1 \<le> y" "y \<le> n"
    and prev: "lcs_m s ! (x - 1) ! (y - 1) = suffix_run str1 str2 (x - 1) (y - 1)"
  shows "lcs_cell str1 str2 x y s =
           (if longest s < suffix_run str1 str2 x y
            then \<lparr>lcs_m = set2 (lcs_m s) x y (suffix_run str1 str2 x y),
                  longest = suffix_run str1 str2 x y, x_longest = x, y_longest = y\<rparr>
            else s\<lparr>lcs_m := set2 (lcs_m s) x y (suffix_run str1 str2 x y)\<rparr>)"
proof -
  obtain x' y' where xy: "x = Suc x'" "y = Suc y'"
    using x(1) y(1) by (cases x; cases y) auto
  from grid_dims_nth [OF dm x(2) y(2)] have lt: "x < length (lcs_m s)" "y < length (lcs_m s ! x)"
    by simp_all
  show ?thesis
  proof (cases "str1 ! x' = str2 ! y'")
    case True
    then have v: "suffix_run str1 str2 x y = lcs_m s ! x' ! y' + 1"
      using prev by (simp add: xy)
    have "set2 (lcs_m s) x y (lcs_m s ! x' ! y' + 1) ! x ! y = lcs_m s ! x' ! y' + 1"
      using lt by (simp add: set2_nth)
    then show ?thesis
      unfolding lcs_cell_def v using True by (simp add: xy Let_def)
  next
    case False
    then have v: "suffix_run str1 str2 x y = 0" by (simp add: xy)
    show ?thesis
      unfolding lcs_cell_def v using False by (simp add: xy)
  qed
qed

lemma lcs_inv_init: "lcs_inv str1 str2 1 1 (lcs_init str1 str2)"
  unfolding lcs_inv_def lcs_init_def
  by (simp add: grid_dims_replicate nth_replicate2 not_visited_start del: replicate_Suc)

lemma lcs_inv_wrap:
  "lcs_inv str1 str2 x (Suc (length str2)) s \<Longrightarrow> lcs_inv str1 str2 (Suc x) 1 s"
  unfolding lcs_inv_def visited_wrap .

lemma visited_mono:
  "1 \<le> x \<Longrightarrow> 1 \<le> y \<Longrightarrow> y \<le> n \<Longrightarrow> visited n x y i j \<Longrightarrow> visited n x (Suc y) i j"
  by (simp add: visited_step)

lemma lcs_inv_step:
  assumes inv: "lcs_inv str1 str2 x y s"
    and x: "1 \<le> x" "x \<le> length str1" and y: "1 \<le> y" "y \<le> length str2"
  shows "lcs_inv str1 str2 x (Suc y) (lcs_cell str1 str2 x y s)"
proof -
  define v where "v = suffix_run str1 str2 x y"
  define s' where "s' = lcs_cell str1 str2 x y s"
  note vs = visited_step [OF x(1) y(1) y(2)]
  from inv have dm: "grid_dims (length str1) (length str2) (lcs_m s)"
    and le: "\<And>i j. visited (length str2) x y i j \<Longrightarrow> suffix_run str1 str2 i j \<le> longest s"
    and arg: "if longest s = 0 then x_longest s = 0 \<and> y_longest s = 0
          else x_longest s \<le> length str1
               \<and> visited (length str2) x y (x_longest s) (y_longest s)
               \<and> suffix_run str1 str2 (x_longest s) (y_longest s) = longest s
               \<and> (\<forall>i j. visited (length str2) (x_longest s) (y_longest s) i j
                      \<longrightarrow> suffix_run str1 str2 i j < longest s)"
    unfolding lcs_inv_def by blast+
  from inv have cells: "lcs_m s ! i ! j
      = (if visited (length str2) x y i j then suffix_run str1 str2 i j else 0)"
    if "i \<le> length str1" "j \<le> length str2" for i j
    unfolding lcs_inv_def using that by blast
  have prev: "lcs_m s ! (x - 1) ! (y - 1) = suffix_run str1 str2 (x - 1) (y - 1)"
  proof (cases "visited (length str2) x y (x - 1) (y - 1)")
    case True
    with cells [of "x - 1" "y - 1"] x y show ?thesis by simp
  next
    case False
    with x y have "x - 1 = 0 \<or> y - 1 = 0" unfolding visited_def by auto
    then have "suffix_run str1 str2 (x - 1) (y - 1) = 0" by auto
    with False cells [of "x - 1" "y - 1"] x y show ?thesis by simp
  qed
  have s': "s' = (if longest s < v
            then \<lparr>lcs_m = set2 (lcs_m s) x y v, longest = v, x_longest = x, y_longest = y\<rparr>
            else s\<lparr>lcs_m := set2 (lcs_m s) x y v\<rparr>)"
    unfolding s'_def v_def by (rule lcs_cell_result [OF dm x y prev])
  have ms': "lcs_m s' = set2 (lcs_m s) x y v" unfolding s' by simp
  have m': "lcs_m s' ! i ! j = (if i = x \<and> j = y then v else lcs_m s ! i ! j)" for i j
    unfolding ms' using grid_dims_nth [OF dm x(2) y(2)] by (simp add: set2_nth)
  have dm': "grid_dims (length str1) (length str2) (lcs_m s')"
    unfolding ms' by (rule set2_dims [OF x(2) dm])
  have l': "longest s' = max (longest s) v" unfolding s' by (simp add: max_def)
  have nv: "\<not> visited (length str2) x y x y" by (simp add: visited_def)
  have cells': "lcs_m s' ! i ! j
      = (if visited (length str2) x y i j \<or> i = x \<and> j = y then suffix_run str1 str2 i j else 0)"
    if "i \<le> length str1" "j \<le> length str2" for i j
    using cells [OF that] nv by (auto simp: m' v_def)
  have le': "suffix_run str1 str2 i j \<le> longest s'"
    if "visited (length str2) x y i j \<or> i = x \<and> j = y" for i j
    using that le [of i j] by (auto simp: l' v_def max.coboundedI1)
  have arg': "if longest s' = 0 then x_longest s' = 0 \<and> y_longest s' = 0
          else x_longest s' \<le> length str1
               \<and> (visited (length str2) x y (x_longest s') (y_longest s')
                   \<or> x_longest s' = x \<and> y_longest s' = y)
               \<and> suffix_run str1 str2 (x_longest s') (y_longest s') = longest s'
               \<and> (\<forall>i j. visited (length str2) (x_longest s') (y_longest s') i j
                      \<longrightarrow> suffix_run str1 str2 i j < longest s')"
  proof (cases "longest s < v")
    case True
    then have "s' = \<lparr>lcs_m = set2 (lcs_m s) x y v, longest = v, x_longest = x, y_longest = y\<rparr>"
      unfolding s' by simp
    then have f: "longest s' = v" "x_longest s' = x" "y_longest s' = y" by simp_all
    have "suffix_run str1 str2 i j < v" if "visited (length str2) x y i j" for i j
      using le [OF that] True by simp
    with True x(2) show ?thesis unfolding f by (auto simp: v_def)
  next
    case False
    then have "s' = s\<lparr>lcs_m := set2 (lcs_m s) x y v\<rparr>" unfolding s' by simp
    then have f: "longest s' = longest s" "x_longest s' = x_longest s" "y_longest s' = y_longest s"
      by simp_all
    from arg show ?thesis unfolding f by auto
  qed
  show ?thesis
    unfolding lcs_inv_def s'_def [symmetric] vs
    using dm' cells' le' arg' by blast
qed

lemma lcs_run_inv: "lcs_inv str1 str2 (Suc (length str1)) 1 (lcs_run str1 str2)"
proof -
  have "lcs_inv str1 str2 (Suc (length str1)) 1
     (fold (\<lambda>x. fold (lcs_cell str1 str2 x) [1 ..< 1 + length str2])
        [1 ..< 1 + length str1] (lcs_init str1 str2))"
    by (rule grid_invariant [where Q = "lcs_inv str1 str2"])
      (rule lcs_inv_init, rule lcs_inv_step, assumption+, rule lcs_inv_wrap)
  then show ?thesis
    unfolding lcs_run_def lcs_row_def [abs_def] .
qed

lemma excise_first_Nil: "excise_first [] a = a"
  by (cases a) simp_all

lemma lcs_run_final:
  assumes "s = lcs_run str1 str2"
  shows "1 \<le> i \<Longrightarrow> i \<le> length str1 \<Longrightarrow> 1 \<le> j \<Longrightarrow> j \<le> length str2 \<Longrightarrow>
           suffix_run str1 str2 i j \<le> longest s"
    and "longest s = 0 \<Longrightarrow> x_longest s = 0 \<and> y_longest s = 0"
    and "0 < longest s \<Longrightarrow>
           1 \<le> x_longest s \<and> x_longest s \<le> length str1
           \<and> 1 \<le> y_longest s \<and> y_longest s \<le> length str2
           \<and> suffix_run str1 str2 (x_longest s) (y_longest s) = longest s"
    and "0 < longest s \<Longrightarrow> visited (length str2) (x_longest s) (y_longest s) i j \<Longrightarrow>
           suffix_run str1 str2 i j < longest s"
proof -
  have inv: "lcs_inv str1 str2 (Suc (length str1)) 1 s"
    unfolding assms by (rule lcs_run_inv)
  then have le: "\<And>i j. visited (length str2) (Suc (length str1)) 1 i j \<Longrightarrow>
      suffix_run str1 str2 i j \<le> longest s"
    and arg: "if longest s = 0 then x_longest s = 0 \<and> y_longest s = 0
          else x_longest s \<le> length str1
               \<and> visited (length str2) (Suc (length str1)) 1 (x_longest s) (y_longest s)
               \<and> suffix_run str1 str2 (x_longest s) (y_longest s) = longest s
               \<and> (\<forall>i j. visited (length str2) (x_longest s) (y_longest s) i j
                      \<longrightarrow> suffix_run str1 str2 i j < longest s)"
    unfolding lcs_inv_def by blast+
  show "suffix_run str1 str2 i j \<le> longest s"
    if "1 \<le> i" "i \<le> length str1" "1 \<le> j" "j \<le> length str2"
  proof (rule le)
    show "visited (length str2) (Suc (length str1)) 1 i j"
      unfolding visited_def using that by auto
  qed
  show "x_longest s = 0 \<and> y_longest s = 0" if "longest s = 0"
    using arg that by simp
  show "1 \<le> x_longest s \<and> x_longest s \<le> length str1
           \<and> 1 \<le> y_longest s \<and> y_longest s \<le> length str2
           \<and> suffix_run str1 str2 (x_longest s) (y_longest s) = longest s" if "0 < longest s"
    using arg that unfolding visited_def by auto
  show "suffix_run str1 str2 i j < longest s"
    if "0 < longest s" "visited (length str2) (x_longest s) (y_longest s) i j"
    using arg that by auto
qed

lemma common_sublist_le:
  assumes s: "s = lcs_run str1 str2" and v: "sublist v str1" "sublist v str2"
  shows "length v \<le> longest s"
proof (cases "v = []")
  case True
  then show ?thesis by simp
next
  case False
  then have pos: "1 \<le> length v" by (cases v) simp_all
  from v obtain i j where i: "length v \<le> i" "i \<le> length str1" "seg_end str1 i (length v) = v"
    and j: "length v \<le> j" "j \<le> length str2" "seg_end str2 j (length v) = v"
    unfolding sublist_seg_end by blast
  have "length v \<le> suffix_run str1 str2 i j"
    using i j by (intro suffix_run_maximal) simp_all
  also have "\<dots> \<le> longest s"
    using pos i j by (intro lcs_run_final(1) [OF s]) simp_all
  finally show ?thesis .
qed

lemma lcs_iteration_round:
  assumes big: "\<not> int (min (length str1) (length str2)) < min_len"
    and s: "s = lcs_run str1 str2" and w: "w = seg_end str1 (x_longest s) (longest s)"
  shows "lcs_iteration min_len (str1, str2)
           = (Some (excise_first w str1, excise_first w str2), longest s)"
    and "length w = longest s" and "sublist w str1" and "sublist w str2"
    and "length (excise_first w str1) = length str1 - longest s"
proof -
  have it: "lcs_iteration min_len (str1, str2)
      = (Some (take (x_longest s - longest s) str1 @ drop (x_longest s) str1,
               take (y_longest s - longest s) str2 @ drop (y_longest s) str2), longest s)"
    using big by (simp add: lcs_iteration_def Let_def s)
  have "lcs_iteration min_len (str1, str2)
           = (Some (excise_first w str1, excise_first w str2), longest s)
      \<and> length w = longest s \<and> sublist w str1 \<and> sublist w str2
      \<and> length (excise_first w str1) = length str1 - longest s"
  proof (cases "longest s = 0")
    case True
    with lcs_run_final(2) [OF s] have "x_longest s = 0" "y_longest s = 0" by simp_all
    with True show ?thesis by (simp add: it w excise_first_Nil)
  next
    case False
    then have pos: "0 < longest s" by simp
    define l where "l = longest s"
    define xl where "xl = x_longest s"
    define yl where "yl = y_longest s"
    from lcs_run_final(3) [OF s pos] have r: "1 \<le> xl" "xl \<le> length str1" "1 \<le> yl"
      "yl \<le> length str2" "suffix_run str1 str2 xl yl = l"
      unfolding l_def xl_def yl_def by simp_all
    have before: "suffix_run str1 str2 i j < l" if "visited (length str2) xl yl i j" for i j
      using lcs_run_final(4) [OF s pos] that unfolding l_def xl_def yl_def by simp
    have lle: "l \<le> xl" "l \<le> yl" using suffix_run_le [of str1 str2 xl yl] r(5) by simp_all
    have wa: "w = seg_end str1 xl l" unfolding w l_def xl_def by simp
    have "seg_end str1 xl (suffix_run str1 str2 xl yl) = seg_end str2 yl (suffix_run str1 str2 xl yl)"
      by (rule suffix_run_common [OF r(2) r(4)])
    then have wb: "w = seg_end str2 yl l"
      unfolding wa by (simp only: r(5))
    have lw: "length w = l" unfolding wa using lle r by (simp add: length_seg_end)
    have sa: "sublist w str1"
      unfolding sublist_seg_end using lw wa lle r by (intro exI [of _ xl]) simp
    have sb: "sublist w str2"
      unfolding sublist_seg_end using lw wb lle r by (intro exI [of _ yl]) simp
    have ea: "excise_first w str1 = take (xl - l) str1 @ drop (xl - l + length w) str1"
    proof (rule excise_first_eq)
      show "xl - l + length w \<le> length str1" using lw lle r by simp
      show "take (length w) (drop (xl - l) str1) = w" using lw wa by (simp add: seg_end_def)
      show "take (length w) (drop q str1) \<noteq> w" if q: "q < xl - l" for q
      proof
        assume eq: "take (length w) (drop q str1) = w"
        have "l \<le> suffix_run str1 str2 (q + l) yl"
        proof (rule suffix_run_maximal)
          show "seg_end str1 (q + l) l = seg_end str2 yl l"
            using eq lw wb by (simp add: seg_end_def)
        qed (use q lle r in simp_all)
        moreover have "visited (length str2) xl yl (q + l) yl"
          unfolding visited_def using q pos r l_def by auto
        ultimately show False using before [of "q + l" yl] by simp
      qed
    qed
    have eb: "excise_first w str2 = take (yl - l) str2 @ drop (yl - l + length w) str2"
    proof (rule excise_first_eq)
      show "yl - l + length w \<le> length str2" using lw lle r by simp
      show "take (length w) (drop (yl - l) str2) = w" using lw wb by (simp add: seg_end_def)
      show "take (length w) (drop q str2) \<noteq> w" if q: "q < yl - l" for q
      proof
        assume eq: "take (length w) (drop q str2) = w"
        have "l \<le> suffix_run str1 str2 xl (q + l)"
        proof (rule suffix_run_maximal)
          show "seg_end str1 xl l = seg_end str2 (q + l) l"
            using eq lw wa by (simp add: seg_end_def)
        qed (use q lle r in simp_all)
        moreover have "visited (length str2) xl yl xl (q + l)"
          unfolding visited_def using q pos r l_def by auto
        ultimately show False using before [of xl "q + l"] by simp
      qed
    qed
    have "length (excise_first w str1) = length str1 - l"
      unfolding ea using lw lle r by simp
    with ea eb lw lle sa sb show ?thesis
      unfolding it by (simp add: l_def [symmetric] xl_def [symmetric] yl_def [symmetric])
  qed
  then show "lcs_iteration min_len (str1, str2)
           = (Some (excise_first w str1, excise_first w str2), longest s)"
    and "length w = longest s" and "sublist w str1" and "sublist w str2"
    and "length (excise_first w str1) = length str1 - longest s"
    by simp_all
qed

lemma lcs_loop_extraction:
  assumes "1 \<le> min_len"
  shows "\<exists>t. lcs_loop min_len (Some (a, b)) acc = Some (Inr (acc + t)) \<and> extraction min_len a b t"
proof (induction "length a" arbitrary: a b acc rule: less_induct)
  case less
  show ?case
  proof (cases "int (min (length a) (length b)) < min_len")
    case True
    then have it: "lcs_iteration min_len (a, b) = (None, 0)"
      by (simp add: lcs_iteration_def)
    have "extraction min_len a b 0"
    proof (rule extraction.stop)
      fix w assume "sublist w a" "sublist w b"
      then have "length w \<le> length a" "length w \<le> length b"
        by (auto simp: sublist_def)
      with True show "int (length w) < min_len" by simp
    qed
    moreover have "lcs_loop min_len (Some (a, b)) acc = Some (Inr acc)"
      using assms by (subst lcs_loop.simps) (simp add: it)
    ultimately show ?thesis by (intro exI [of _ 0]) simp
  next
    case False
    define s where "s = lcs_run a b"
    define w where "w = seg_end a (x_longest s) (longest s)"
    note r = lcs_iteration_round [OF False s_def w_def]
    show ?thesis
    proof (cases "int (longest s) < min_len")
      case True
      have "extraction min_len a b 0"
      proof (rule extraction.stop)
        fix v assume "sublist v a" "sublist v b"
        then have "length v \<le> longest s" by (rule common_sublist_le [OF s_def])
        with True show "int (length v) < min_len" by simp
      qed
      moreover have "lcs_loop min_len (Some (a, b)) acc = Some (Inr acc)"
        using True by (subst lcs_loop.simps) (simp add: r(1))
      ultimately show ?thesis by (intro exI [of _ 0]) simp
    next
      case nl: False
      with assms have pos: "0 < longest s" by simp
      have "length a \<ge> longest s"
        using r(2,3) by (auto simp: sublist_def)
      with pos r(5) have "length (excise_first w a) < length a" by simp
      from less [OF this, of "excise_first w b" "acc + longest s"]
      obtain t where t: "lcs_loop min_len (Some (excise_first w a, excise_first w b))
            (acc + longest s) = Some (Inr (acc + longest s + t))"
        "extraction min_len (excise_first w a) (excise_first w b) t" by blast
      have "extraction min_len a b (length w + t)"
      proof (rule extraction.round [OF r(3) r(4) _ _ t(2)])
        show "length v \<le> length w" if "sublist v a" "sublist v b" for v
          using common_sublist_le [OF s_def that] r(2) by simp
        show "min_len \<le> int (length w)" using nl r(2) by simp
      qed
      moreover have "lcs_loop min_len (Some (a, b)) acc = Some (Inr (acc + (longest s + t)))"
        using nl t(1) by (subst lcs_loop.simps) (simp add: r(1) add.assoc)
      ultimately show ?thesis using r(2) by (intro exI [of _ "longest s + t"]) simp
    qed
  qed
qed

lemma normalize_lcs_dice:
  "a \<noteq> [] \<or> b \<noteq> [] \<Longrightarrow>
   normalize_lcs ''dice'' a b t = Inr (2 * of_nat t / of_nat (length a + length b))"
proof -
  assume "a \<noteq> [] \<or> b \<noteq> []"
  then have "length a + length b \<noteq> 0" by auto
  then have "(of_nat (length a + length b) :: rat) \<noteq> 0"
    by (simp only: of_nat_eq_0_iff not_False_eq_True)
  then show ?thesis
    by (simp add: normalize_lcs_def py_div_def mult.commute)
qed

text \<open>
  For \<open>min_len\<close> below 1 no round is ever shorter than \<open>min_len\<close>: the loop does not
  return.
\<close>

lemma lcs_loop_Some_min_len:
  assumes ret: "lcs_loop min_len new_x acc = Some r"
  shows "min_len \<le> 0 \<longrightarrow> new_x = None"
proof (rule lcs_loop.raw_induct [where P = "\<lambda>ml nx ac res. ml \<le> 0 \<longrightarrow> nx = None", OF _ ret])
  fix loop :: "int \<Rightarrow> (string \<times> string) option \<Rightarrow> nat \<Rightarrow> (error + nat) option"
  fix ml nx ac res
  assume IH: "\<And>ml' nx' ac' res'. loop ml' nx' ac' = Some res' \<Longrightarrow> ml' \<le> 0 \<longrightarrow> nx' = None"
    and body: "(case nx of
                  None \<Rightarrow> Some (Inl TypeError)
                | Some p \<Rightarrow>
                    if int (snd (lcs_iteration ml p)) < ml then Some (Inr ac)
                    else loop ml (fst (lcs_iteration ml p)) (ac + snd (lcs_iteration ml p)))
               = Some res"
  show "ml \<le> 0 \<longrightarrow> nx = None"
  proof
    assume neg: "ml \<le> 0"
    show "nx = None"
    proof (cases nx)
      case None
      then show ?thesis .
    next
      case (Some p)
      from neg have nb: "\<not> int (snd (lcs_iteration ml p)) < ml" by simp
      from neg have "\<not> int (min (length (fst p)) (length (snd p))) < ml" by simp
      then have "fst (lcs_iteration ml p) \<noteq> None"
        by (simp add: lcs_iteration_def Let_def)
      moreover from body Some nb
      have "loop ml (fst (lcs_iteration ml p)) (ac + snd (lcs_iteration ml p)) = Some res"
        by simp
      with IH neg have "fst (lcs_iteration ml p) = None" by blast
      ultimately show ?thesis by simp
    qed
  qed
qed

lemma lcs_loop_never_returns:
  "min_len \<le> 0 \<Longrightarrow> lcs_loop min_len (Some p) acc = None"
  using lcs_loop_Some_min_len [of min_len "Some p" acc]
  by (cases "lcs_loop min_len (Some p) acc") auto

text \<open>
  C7. For \<open>min_len\<close> at least 1 and two present strings, each of the two loops of
  \<open>lcs_apply\<close>, on \<open>(a, b)\<close> and on \<open>(b, a)\<close>, ends, and its total is the total of an
  iterative extraction: lengths of longest common substrings of at least \<open>min_len\<close>
  characters, the first occurrence of each cut out of both strings before the next
  round. Each total is normalized on its own and the score is the arithmetic mean of
  the two normalized values (the first division by zero, if any, is raised); with the
  dice normalization and a non-empty string that is the mean of
  \<open>2 * t1 / (len a + len b)\<close> and \<open>2 * t2 / (len a + len b)\<close>. For \<open>ABCDE\<close> and
  \<open>ABCXE\<close> with dice and \<open>min_len = 2\<close> the score is 3/5.
\<close>

theorem lcs_similarity_mean_of_two_extractions:
  assumes "1 \<le> min_len"
  shows "(\<exists>t1 t2.
            lcs_loop min_len (Some (a, b)) 0 = Some (Inr t1) \<and> extraction min_len a b t1
          \<and> lcs_loop min_len (Some (b, a)) 0 = Some (Inr t2) \<and> extraction min_len b a t2
          \<and> lcs_apply normn min_len (Some a, Some b)
              = Some (case normalize_lcs normn a b t1 of
                        Inl err \<Rightarrow> Inl err
                      | Inr v1 \<Rightarrow>
                          (case normalize_lcs normn a b t2 of
                             Inl err \<Rightarrow> Inl err
                           | Inr v2 \<Rightarrow> Inr (Num ((v1 + v2) / 2))))
          \<and> (a \<noteq> [] \<or> b \<noteq> [] \<longrightarrow>
               lcs_apply ''dice'' min_len (Some a, Some b)
                 = Some (Inr (Num ((2 * of_nat t1 / of_nat (length a + length b)
                                   + 2 * of_nat t2 / of_nat (length a + length b)) / 2)))))
       \<and> longest_common_substring_similarity [Some ''ABCDE''] [Some ''ABCXE''] ''dice'' 2
           = Some (Inr [Num (3 / 5)])"
proof -
  from lcs_loop_extraction [OF assms, of a b 0] obtain t1
    where t1: "lcs_loop min_len (Some (a, b)) 0 = Some (Inr t1)" "extraction min_len a b t1"
    by auto
  from lcs_loop_extraction [OF assms, of b a 0] obtain t2
    where t2: "lcs_loop min_len (Some (b, a)) 0 = Some (Inr t2)" "extraction min_len b a t2"
    by auto
  have ap: "lcs_apply n min_len (Some a, Some b)
              = Some (case normalize_lcs n a b t1 of
                        Inl err \<Rightarrow> Inl err
                      | Inr v1 \<Rightarrow>
                          (case normalize_lcs n a b t2 of
                             Inl err \<Rightarrow> Inl err
                           | Inr v2 \<Rightarrow> Inr (Num ((v1 + v2) / 2))))" for n
    by (simp add: lcs_apply_def t1(1) t2(1) split: sum.splits)
  have dice: "lcs_apply ''dice'' min_len (Some a, Some b)
                 = Some (Inr (Num ((2 * of_nat t1 / of_nat (length a + length b)
                                   + 2 * of_nat t2 / of_nat (length a + length b)) / 2)))"
    if "a \<noteq> [] \<or> b \<noteq> []"
    unfolding ap by (simp only: normalize_lcs_dice [OF that] sum.case)
  have ex: "longest_common_substring_similarity [Some ''ABCDE''] [Some ''ABCXE''] ''dice'' 2
           = Some (Inr [Num (3 / 5)])"
    by code_simp
  from t1 t2 ap dice ex show ?thesis by blast
qed

theorem lcs_similarity_mean_of_two_extractions_witness:
  "lcs_loop 2 (Some (''ABCDE'', ''ABCXE'')) 0 = Some (Inr 3)
   \<and> extraction 2 ''ABCDE'' ''ABCXE'' 3
   \<and> lcs_loop 2 (Some (''ABCXE'', ''ABCDE'')) 0 = Some (Inr 3)
   \<and> extraction 2 ''ABCXE'' ''ABCDE'' 3
   \<and> lcs_apply ''dice'' 2 (Some ''ABCDE'', Some ''ABCXE'') = Some (Inr (Num (3 / 5)))"
proof -
  have l1: "lcs_loop 2 (Some (''ABCDE'', ''ABCXE'')) 0 = Some (Inr 3)" by code_simp
  have l2: "lcs_loop 2 (Some (''ABCXE'', ''ABCDE'')) 0 = Some (Inr 3)" by code_simp
  have ap: "lcs_apply ''dice'' 2 (Some ''ABCDE'', Some ''ABCXE'') = Some (Inr (Num (3 / 5)))"
    by code_simp
  from lcs_similarity_mean_of_two_extractions [of 2 "''ABCDE''" "''ABCXE''" "''dice''"]
  obtain t1 t2 where
    "lcs_loop 2 (Some (''ABCDE'', ''ABCXE'')) 0 = Some (Inr t1)"
    "extraction 2 ''ABCDE'' ''ABCXE'' t1"
    "lcs_loop 2 (Some (''ABCXE'', ''ABCDE'')) 0 = Some (Inr t2)"
    "extraction 2 ''ABCXE'' ''ABCDE'' t2"
    by auto
  with l1 l2 ap show ?thesis by simp
qed

subsection \<open>Length check of the edit-distance scorers\<close>

text \<open>The four functions that test the lengths raise on a mismatch.\<close>

lemma length_mismatch_raises:
  assumes "length s1 \<noteq> length s2"
  shows "qgram_similarity vectorizer s1 s2 include_wb ngram = Inl (ValueError same_length_msg)"
    and "cosine_similarity vectorizer s1 s2 include_wb ngram = Inl (ValueError same_length_msg)"
    and "max mismatch (max gap_start gap_continue) \<le> match \<Longrightarrow>
         smith_waterman_similarity s1 s2 match mismatch gap_start gap_continue normn
           = Inl (ValueError same_length_msg)"
    and "longest_common_substring_similarity s1 s2 normn min_len
           = Some (Inl (ValueError same_length_msg))"
  using assms
  by (simp_all add: qgram_similarity_def cosine_similarity_def smith_waterman_similarity_def
      longest_common_substring_similarity_def)

text \<open>
  C2. Every algorithm is to raise a length-mismatch error when the two collections
  differ in length. The q-gram, cosine, Smith-Waterman and LCS functions test the
  lengths first; the four edit-distance functions have no such test. On a Series of one
  string and a Series of two, \<open>jaro_similarity\<close> returns a two-row result whose
  second row is the missing-value marker; the only error it can leave with is one of
  the primitive itself, on the first row.
\<close>

theorem jaro_similarity_length_mismatch_no_error:
  "jaro_similarity jaro_distance [Some ''MARTHA''] [Some ''MARHTA'', Some ''DIXON'']
     = (case jaro_distance ''MARTHA'' ''MARHTA'' of
          Inl err \<Rightarrow> Inl err
        | Inr r \<Rightarrow> Inr [Num r, NaN])"
  by (simp add: jaro_similarity_def jaro_apply_def jellyfish_call_def except_isnull_def
      isnull_def split: sum.splits)

subsection \<open>Degenerate denominators of the LCS similarity\<close>

text \<open>
  When one of the strings is shorter than \<open>min_len\<close> and not both are empty, both loops
  stop in their first round and the dice score is 0.
\<close>

lemma lcs_short_strings_score_zero:
  assumes short: "int (min (length a) (length b)) < min_len" and ne: "a \<noteq> [] \<or> b \<noteq> []"
  shows "lcs_apply ''dice'' min_len (Some a, Some b) = Some (Inr (Num 0))"
proof -
  from short have pos: "0 < min_len" by simp
  have it: "lcs_iteration min_len (a, b) = (None, 0)" "lcs_iteration min_len (b, a) = (None, 0)"
    using short by (simp_all add: lcs_iteration_def min.commute)
  have l1: "lcs_loop min_len (Some (a, b)) 0 = Some (Inr 0)"
    using pos by (subst lcs_loop.simps) (simp add: it)
  have l2: "lcs_loop min_len (Some (b, a)) 0 = Some (Inr 0)"
    using pos by (subst lcs_loop.simps) (simp add: it)
  show ?thesis
    by (simp add: lcs_apply_def l1 l2 normalize_lcs_dice [OF ne])
qed

text \<open>
  C3. For two present strings shorter than \<open>min_len\<close> the LCS similarity is to be 0,
  with no error, also when both strings are empty. With both strings empty the dice
  denominator \<open>len(a) + len(b)\<close> is the Python integer 0 and the division raises;
  so does the overlap denominator \<open>min(len(a), len(b))\<close> when one string is empty.
\<close>

theorem lcs_both_empty_raises:
  "longest_common_substring_similarity [Some ''''] [Some ''''] ''dice'' 2
     = Some (Inl ZeroDivisionError)
   \<and> longest_common_substring_similarity [Some ''''] [Some ''abc''] ''overlap'' 2
     = Some (Inl ZeroDivisionError)"
  by code_simp

subsection \<open>Missing values in the Smith-Waterman scorer\<close>

text \<open>
  A row with a missing element scores the missing-value marker in the edit-distance
  scorers and the LCS scorer, and in the Smith-Waterman scorer unless its first element
  is the empty string; an error raised for a present pair leaves the scorer unchanged.
\<close>

lemma missing_row_scores_nan:
  assumes "isnull (fst x) \<or> isnull (snd x)"
  shows "jaro_apply f x = Inr NaN"
    and "levenshtein_apply d x = Inr NaN"
    and "lcs_apply normn min_len x = Some (Inr NaN)"
    and "fst x \<noteq> Some [] \<Longrightarrow> sw_apply match mismatch gap_start gap_continue normn x = Inr NaN"
  using assms
  by (cases x; auto simp: jaro_apply_def levenshtein_apply_def lcs_apply_def sw_apply_def
        sw_try_def jellyfish_call_def except_isnull_def isnull_def py_len_def
        split: option.splits sum.splits)+

lemma present_row_error_propagates:
  shows "f a b = Inl err \<Longrightarrow> jaro_apply f (Some a, Some b) = Inl err"
    and "d a b = Inl err \<Longrightarrow> levenshtein_apply d (Some a, Some b) = Inl err"
    and "a \<noteq> [] \<Longrightarrow> b \<noteq> [] \<Longrightarrow> normn = ''min'' \<or> normn = ''max'' \<or> normn = ''mean'' \<Longrightarrow>
         sw_apply 0 mismatch gap_start gap_continue normn (Some a, Some b) = Inl ZeroDivisionError"
  by (auto simp: jaro_apply_def levenshtein_apply_def sw_apply_def sw_try_def normalize_sw_def
      py_div_def jellyfish_call_def except_isnull_def isnull_def)

text \<open>
  C5. A row with a missing element is to score the missing-value marker. In
  \<open>sw_apply\<close> the test \<open>len(str1) == 0\<close> returns 0 for an empty first string before
  the second element is looked at: the row (empty string, missing) scores 0.
\<close>

theorem sw_empty_and_missing_scores_zero:
  "smith_waterman_similarity [Some ''''] [None] 5 (- 5) (- 5) (- 1) ''mean'' = Inr [Num 0]"
  by code_simp

subsection \<open>Range of the Smith-Waterman score\<close>

text \<open>
  With a positive \<open>match\<close>, a \<open>mismatch\<close> not above it and gap scores that are not
  positive, a cell \<open>(x, y)\<close> holds at most \<open>match * min x y\<close>, and the normalized score
  of two non-empty strings lies between 0 and 1 for each of the three normalizations.
\<close>

lemma sw_run_cells:
  assumes "s = sw_run match mismatch gap_start gap_continue str1 str2"
    and "x \<le> length str1" and "y \<le> length str2"
  shows "if 1 \<le> x \<and> 1 \<le> y
         then sw_cell_ok match mismatch gap_start gap_continue str1 str2 s x y
         else sw_m s ! x ! y = 0 \<and> sw_trace s ! x ! y = []"
proof -
  have "sw_inv match mismatch gap_start gap_continue str1 str2 (Suc (length str1)) 1 s"
    unfolding assms(1) by (rule sw_run_inv)
  then have "if visited (length str2) (Suc (length str1)) 1 x y
             then sw_cell_ok match mismatch gap_start gap_continue str1 str2 s x y
                  \<and> sw_m s ! x ! y \<le> sw_highest s
             else sw_m s ! x ! y = 0 \<and> sw_trace s ! x ! y = []"
    unfolding sw_inv_def using assms(2,3) by blast
  moreover have "visited (length str2) (Suc (length str1)) 1 x y = (1 \<le> x \<and> 1 \<le> y)"
    unfolding visited_def using assms(2,3) by auto
  ultimately show ?thesis by simp
qed

lemma sw_cell_bound:
  assumes par: "0 \<le> match" "mismatch \<le> match" "gap_start \<le> 0" "gap_continue \<le> 0"
    and s: "s = sw_run match mismatch gap_start gap_continue str1 str2"
  shows "x \<le> length str1 \<Longrightarrow> y \<le> length str2 \<Longrightarrow>
         0 \<le> sw_m s ! x ! y \<and> sw_m s ! x ! y \<le> match * of_nat (min x y)"
proof (induction "x + y" arbitrary: x y rule: less_induct)
  case less
  note cell = sw_run_cells [OF s less.prems]
  show ?case
  proof (cases "1 \<le> x \<and> 1 \<le> y")
    case False
    with cell par(1) show ?thesis by simp
  next
    case True
    then obtain x' y' where xy: "x = Suc x'" "y = Suc y'" by (cases x; cases y) auto
    have d: "sw_m s ! x' ! y' \<le> match * of_nat (min x' y')"
      using less.hyps [of x' y'] less.prems xy by simp
    have l: "sw_m s ! x' ! y \<le> match * of_nat (min x' y)"
      using less.hyps [of x' y] less.prems xy by simp
    have a: "sw_m s ! x ! y' \<le> match * of_nat (min x y')"
      using less.hyps [of x y'] less.prems xy by simp
    have mono: "match * of_nat (min i j) \<le> match * of_nat (min x y)"
      if "i \<le> x" "j \<le> y" for i j
      using that par(1) by (intro mult_left_mono) (simp_all add: min.coboundedI1 min.coboundedI2)
    have step: "match * of_nat (min x' y') + match = match * of_nat (min x y)"
      by (simp add: xy algebra_simps)
    have "sw_diagonal match mismatch str1 str2 s x y \<le> match * of_nat (min x y)"
      unfolding sw_diagonal_def using d par(2) step by (auto simp: xy)
    moreover have "sw_gap_left gap_start gap_continue s x y \<le> match * of_nat (min x y)"
      unfolding sw_gap_left_def using l mono [of x' y] par(3,4) by (auto simp: xy)
    moreover have "sw_gap_above gap_start gap_continue s x y \<le> match * of_nat (min x y)"
      unfolding sw_gap_above_def using a mono [of x y'] par(3,4) by (auto simp: xy)
    moreover have "0 \<le> match * of_nat (min x y)" using par(1) by simp
    moreover from cell True
    have "sw_m s ! x ! y = max 0 (sw_best match mismatch gap_start gap_continue str1 str2 s x y)"
      by (simp add: sw_cell_ok_def)
    ultimately show ?thesis by (simp add: sw_best_def)
  qed
qed

lemma compute_score_bound:
  assumes par: "0 \<le> match" "mismatch \<le> match" "gap_start \<le> 0" "gap_continue \<le> 0"
  shows "0 \<le> compute_score match mismatch gap_start gap_continue str1 str2
       \<and> compute_score match mismatch gap_start gap_continue str1 str2
           \<le> match * of_nat (min (length str1) (length str2))"
proof -
  define s where "s = sw_run match mismatch gap_start gap_continue str1 str2"
  have "sw_inv match mismatch gap_start gap_continue str1 str2 (Suc (length str1)) 1 s"
    unfolding s_def by (rule sw_run_inv)
  then have hi: "sw_highest s = 0 \<or> (\<exists>i j. i \<le> length str1
        \<and> visited (length str2) (Suc (length str1)) 1 i j \<and> sw_highest s = sw_m s ! i ! j)"
    unfolding sw_inv_def by blast
  have "0 \<le> sw_highest s \<and> sw_highest s \<le> match * of_nat (min (length str1) (length str2))"
    using hi
  proof
    assume "sw_highest s = 0"
    with par(1) show ?thesis by simp
  next
    assume "\<exists>i j. i \<le> length str1
        \<and> visited (length str2) (Suc (length str1)) 1 i j \<and> sw_highest s = sw_m s ! i ! j"
    then obtain i j where ij: "i \<le> length str1" "j \<le> length str2"
      "sw_highest s = sw_m s ! i ! j"
      unfolding visited_def by auto
    from sw_cell_bound [OF par s_def ij(1,2)]
    have "0 \<le> sw_m s ! i ! j" "sw_m s ! i ! j \<le> match * of_nat (min i j)" by simp_all
    moreover have "match * of_nat (min i j) \<le> match * of_nat (min (length str1) (length str2))"
      using ij(1,2) par(1)
      by (intro mult_left_mono) (simp_all add: min.coboundedI1 min.coboundedI2)
    ultimately show ?thesis using ij(3) by simp
  qed
  then show ?thesis by (simp add: compute_score_def s_def)
qed

lemma sw_score_unit_interval:
  assumes par: "0 < match" "mismatch \<le> match" "gap_start \<le> 0" "gap_continue \<le> 0"
    and ne: "a \<noteq> []" "b \<noteq> []"
    and n: "normn = ''min'' \<or> normn = ''max'' \<or> normn = ''mean''"
  shows "\<exists>r. sw_apply match mismatch gap_start gap_continue normn (Some a, Some b) = Inr (Num r)
           \<and> 0 \<le> r \<and> r \<le> 1"
proof -
  define c where "c = compute_score match mismatch gap_start gap_continue a b"
  from compute_score_bound [of match mismatch gap_start gap_continue a b] par
  have c: "0 \<le> c" "c \<le> match * of_nat (min (length a) (length b))"
    unfolding c_def by simp_all
  from ne have pos: "0 < length a" "0 < length b" by simp_all
  have ap: "sw_apply match mismatch gap_start gap_continue normn (Some a, Some b)
      = normalize_sw match normn a b c"
    using ne
    by (simp add: sw_apply_def sw_try_def except_isnull_def isnull_def c_def split: sum.splits)
  have bound: "0 \<le> k * c / (d * match) \<and> k * c / (d * match) \<le> 1"
    if "0 < d" "k * (match * of_nat (min (length a) (length b))) \<le> d * match" "0 \<le> k"
    for k d :: rat
  proof -
    have dm: "0 < d * match" using that(1) par(1) by simp
    have "k * c \<le> k * (match * of_nat (min (length a) (length b)))"
      using c(2) that(3) by (rule mult_left_mono)
    also note that(2)
    finally have "k * c / (d * match) \<le> 1" using dm by simp
    moreover have "0 \<le> k * c / (d * match)" using dm c(1) that(3) by simp
    ultimately show ?thesis by simp
  qed
  from n show ?thesis
  proof (elim disjE)
    assume m: "normn = ''min''"
    from pos have d: "(0 :: rat) < of_nat (min (length a) (length b))" by simp
    from bound [of "of_nat (min (length a) (length b))" 1] d
    have "0 \<le> c / (of_nat (min (length a) (length b)) * match)
        \<and> c / (of_nat (min (length a) (length b)) * match) \<le> 1"
      by (simp add: mult.commute)
    moreover from d par(1) have "of_nat (min (length a) (length b)) * match \<noteq> 0" by simp
    ultimately show ?thesis
      using ap unfolding m by (simp add: normalize_sw_def py_div_def)
  next
    assume m: "normn = ''max''"
    from pos have "0 < max (length a) (length b)" by (simp add: max_def)
    then have d: "(0 :: rat) < of_nat (max (length a) (length b))"
      by (simp only: of_nat_0_less_iff)
    have "match * of_nat (min (length a) (length b)) \<le> of_nat (max (length a) (length b)) * match"
      using par(1) by (simp add: mult.commute)
    from bound [of "of_nat (max (length a) (length b))" 1] d this
    have "0 \<le> c / (of_nat (max (length a) (length b)) * match)
        \<and> c / (of_nat (max (length a) (length b)) * match) \<le> 1"
      by simp
    moreover from d par(1) have "of_nat (max (length a) (length b)) * match \<noteq> 0"
      by (simp only: mult_eq_0_iff) auto
    ultimately show ?thesis
      using ap unfolding m by (simp add: normalize_sw_def py_div_def)
  next
    assume m: "normn = ''mean''"
    from pos have "0 < length a + length b" by simp
    then have d: "(0 :: rat) < of_nat (length a + length b)"
      by (simp only: of_nat_0_less_iff)
    have "2 * min (length a) (length b) \<le> length a + length b" by simp
    then have "(of_nat (2 * min (length a) (length b)) :: rat) \<le> of_nat (length a + length b)"
      by (simp only: of_nat_le_iff)
    then have "2 * (match * of_nat (min (length a) (length b)))
        \<le> of_nat (length a + length b) * match"
      using par(1) by (simp add: mult.commute mult.left_commute)
    from bound [of "of_nat (length a + length b)" 2] d this
    have "0 \<le> 2 * c / (of_nat (length a + length b) * match)
        \<and> 2 * c / (of_nat (length a + length b) * match) \<le> 1"
      by simp
    moreover from d par(1) have "of_nat (length a + length b) * match \<noteq> 0"
      by (simp only: mult_eq_0_iff) auto
    ultimately show ?thesis
      using ap unfolding m by (simp add: normalize_sw_def py_div_def)
  qed
qed

text \<open>
  C8. Normalized scores are to lie in the interval from 0 to 1 for every parameter
  choice the assertion accepts. The assertion accepts positive gap scores below
  \<open>match\<close>; with \<open>match = 5\<close> and both gap scores 4 the strings \<open>ab\<close> and \<open>ab\<close>
  score 13/10 under the mean normalization.
\<close>

theorem sw_score_above_one:
  "smith_waterman_similarity [Some ''ab''] [Some ''ab''] 5 (- 5) 4 4 ''mean''
     = Inr [Num (13 / 10)]"
  by code_simp

subsection \<open>Unknown normalization of the Smith-Waterman scorer\<close>

text \<open>
  C10. For two present non-empty strings and a normalization name other than
  \<open>min\<close>, \<open>max\<close> and \<open>mean\<close>, \<open>normalize\<close> returns \<open>None\<close> whatever the raw score
  and the value of \<open>match\<close>, and so does \<open>sw_apply\<close> for the row: no error is raised
  and no normalization is applied in its place.
\<close>

theorem sw_unknown_norm_returns_none:
  assumes "normn \<noteq> ''min''" and "normn \<noteq> ''max''" and "normn \<noteq> ''mean''"
    and "a \<noteq> []" and "b \<noteq> []"
  shows "normalize_sw match normn a b sc = Inr PyNone \<and>
         sw_apply match mismatch gap_start gap_continue normn (Some a, Some b) = Inr PyNone"
  using assms by (simp add: normalize_sw_def sw_apply_def sw_try_def except_isnull_def)

theorem sw_unknown_norm_returns_none_witness:
  "''median'' \<noteq> ''min'' \<and> ''median'' \<noteq> ''max'' \<and> ''median'' \<noteq> ''mean'' \<and>
   ''ab'' \<noteq> [] \<and> ''ac'' \<noteq> [] \<and>
   normalize_sw 5 ''median'' ''ab'' ''ac'' 5 = Inr PyNone \<and>
   sw_apply 5 (- 5) (- 5) (- 1) ''median'' (Some ''ab'', Some ''ac'') = Inr PyNone"
  using sw_unknown_norm_returns_none [of "''median''" "''ab''" "''ac''" 5 5 "- 5" "- 5" "- 1"]
  by simp

end
